theory Spec2Isabelle
  imports Complex_Main "HOL-Library.Multiset"
begin

section \<open>Values\<close>

text \<open>
  The engine of \<^verbatim>\<open>core.py\<close> computes with numpy arrays of binary64 floats. The
  embedding idealises a finite float as a real number (rounding and overflow are not
  modelled) and keeps the three special values of IEEE arithmetic, since numpy
  returns them instead of raising: \<open>0/0\<close> is NaN and \<open>x/0\<close> is an infinity.
\<close>

datatype npfloat = Fin real | PInf | NInf | NaN

text \<open>A parsed cell is what \<^verbatim>\<open>parse_value\<close> returns: an int, a float or the text.\<close>

datatype cell = IntV int | FloatV npfloat | TextV string

datatype error = IndexError | ValueError

section \<open>Python's string builtins (ASCII fragment)\<close>

text \<open>
  \<^verbatim>\<open>str.replace(old, new)\<close>: the non-overlapping occurrences of \<open>old\<close>, from the left.
  For the empty \<open>old\<close> Python puts \<open>new\<close> before every character and at the end.
\<close>

fun replace_nonempty :: "string \<Rightarrow> string \<Rightarrow> nat \<Rightarrow> string \<Rightarrow> string" where
  "replace_nonempty old new k [] = []"
| "replace_nonempty old new 0 (c # cs) =
     (if take (length old) (c # cs) = old
      then new @ replace_nonempty old new (length old - 1) cs
      else c # replace_nonempty old new 0 cs)"
| "replace_nonempty old new (Suc k) (c # cs) = replace_nonempty old new k cs"

definition replace :: "string \<Rightarrow> string \<Rightarrow> string \<Rightarrow> string" where
  "replace s old new =
     (if old = [] then new @ concat (map (\<lambda>c. c # new) s)
      else replace_nonempty old new 0 s)"

text \<open>
  The characters \<^verbatim>\<open>int()\<close> and \<^verbatim>\<open>float()\<close> strip from both ends: tab, newline,
  vertical tab, form feed, carriage return, the separators 0x1c to 0x1f and the space.
\<close>

definition is_space :: "char \<Rightarrow> bool" where
  "is_space c = (of_char c \<in> {9::nat, 10, 11, 12, 13, 28, 29, 30, 31, 32})"

definition strip :: "string \<Rightarrow> string" where
  "strip s = rev (dropWhile is_space (rev (dropWhile is_space s)))"

definition digit_of :: "char \<Rightarrow> nat option" where
  "digit_of c = map_of
     [(CHR ''0'', 0), (CHR ''1'', 1), (CHR ''2'', 2), (CHR ''3'', 3), (CHR ''4'', 4),
      (CHR ''5'', 5), (CHR ''6'', 6), (CHR ''7'', 7), (CHR ''8'', 8), (CHR ''9'', 9)] c"

text \<open>
  A \<^emph>\<open>digitpart\<close> of Python's numeric grammar: one or more digits, single underscores
  allowed between two digits. \<open>digits prev acc n s\<close> reads \<open>s\<close> to its end; \<open>prev\<close>
  says that the last character read was a digit, \<open>acc\<close> is the value and \<open>n\<close> the
  number of digits read so far.
\<close>

fun digits :: "bool \<Rightarrow> nat \<Rightarrow> nat \<Rightarrow> string \<Rightarrow> (nat \<times> nat) option" where
  "digits prev acc n [] = (if prev then Some (acc, n) else None)"
| "digits prev acc n (c # cs) =
     (case digit_of c of
        Some d \<Rightarrow> digits True (10 * acc + d) (Suc n) cs
      | None \<Rightarrow> if c = CHR ''_'' \<and> prev then digits False acc n cs else None)"

definition digitpart :: "string \<Rightarrow> (nat \<times> nat) option" where
  "digitpart s = digits False 0 0 s"

text \<open>An optional sign in front of \<open>s\<close>: the factor and the rest.\<close>

fun sign_of :: "string \<Rightarrow> int \<times> string" where
  "sign_of [] = (1, [])"
| "sign_of (c # cs) =
     (if c = CHR ''-'' then (- 1, cs) else if c = CHR ''+'' then (1, cs) else (1, c # cs))"

text \<open>
  \<^verbatim>\<open>int(s)\<close> in base 10; \<open>None\<close> is the \<^verbatim>\<open>ValueError\<close>. (Python 3.11 and later also
  refuse more than 4300 digits with a \<^verbatim>\<open>ValueError\<close>; that limit is not modelled.)
\<close>

definition py_int :: "string \<Rightarrow> int option" where
  "py_int s =
     (case sign_of (strip s) of (sg, body) \<Rightarrow>
        (case digitpart body of None \<Rightarrow> None | Some (v, n) \<Rightarrow> Some (sg * int v)))"

definition lower :: "char \<Rightarrow> char" where
  "lower c =
     (case map_of (zip ''ABCDEFGHIJKLMNOPQRSTUVWXYZ'' ''abcdefghijklmnopqrstuvwxyz'') c of
        Some l \<Rightarrow> l | None \<Rightarrow> c)"

definition is_exp_mark :: "char \<Rightarrow> bool" where
  "is_exp_mark c = (c = CHR ''e'' \<or> c = CHR ''E'')"

text \<open>The digits before and after the point: value and number of fraction digits.\<close>

definition mantissa :: "string \<Rightarrow> (nat \<times> nat) option" where
  "mantissa m =
     (let ip = takeWhile (\<lambda>c. c \<noteq> CHR ''.'') m; rest = dropWhile (\<lambda>c. c \<noteq> CHR ''.'') m
      in case rest of
           [] \<Rightarrow> (case digitpart ip of None \<Rightarrow> None | Some (v, n) \<Rightarrow> Some (v, 0))
         | dot # fp \<Rightarrow>
             if ip = [] then digitpart fp
             else (case digitpart ip of
                     None \<Rightarrow> None
                   | Some (v, n) \<Rightarrow>
                       if fp = [] then Some (v, 0)
                       else (case digits False v 0 fp of
                               None \<Rightarrow> None
                             | Some (w, k) \<Rightarrow> Some (w, k))))"

definition exponent :: "string \<Rightarrow> int option" where
  "exponent e =
     (case e of
        [] \<Rightarrow> Some 0
      | mark # ds \<Rightarrow>
          (case sign_of ds of (sg, body) \<Rightarrow>
             (case digitpart body of None \<Rightarrow> None | Some (v, n) \<Rightarrow> Some (sg * int v))))"

text \<open>
  \<^verbatim>\<open>float(s)\<close>; \<open>None\<close> is the \<^verbatim>\<open>ValueError\<close>. The spellings of infinity and NaN
  are accepted in any case; a decimal numeral is read as the real number it denotes.
\<close>

definition py_float :: "string \<Rightarrow> npfloat option" where
  "py_float s =
     (case sign_of (strip s) of (sg, body) \<Rightarrow>
        if map lower body = ''inf'' \<or> map lower body = ''infinity''
        then Some (if sg < 0 then NInf else PInf)
        else if map lower body = ''nan'' then Some NaN
        else (case mantissa (takeWhile (\<lambda>c. \<not> is_exp_mark c) body) of
                None \<Rightarrow> None
              | Some (v, k) \<Rightarrow>
                  (case exponent (dropWhile (\<lambda>c. \<not> is_exp_mark c) body) of
                     None \<Rightarrow> None
                   | Some x \<Rightarrow>
                       Some (Fin (of_int sg * (real v / 10 ^ k) * 10 powi x)))))"

section \<open>The value parser\<close>

text \<open>\<^verbatim>\<open>parse_value\<close>, the function nested in \<^verbatim>\<open>scrape\<close> (core.py, lines 16 to 26).\<close>

definition parse_value :: "string \<Rightarrow> cell" where
  "parse_value val =
     (if val = ''NC'' \<or> val = ''-'' then IntV 0
      else
        let clean = replace (replace val '' '' '''') '','' ''.''
        in if CHR ''.'' \<in> set clean
           then (case py_float clean of Some f \<Rightarrow> FloatV f | None \<Rightarrow> TextV val)
           else (case py_int clean of Some i \<Rightarrow> IntV i | None \<Rightarrow> TextV val))"

section \<open>Record assembly\<close>

text \<open>
  \<^verbatim>\<open>scrape\<close> (core.py, lines 28 to 38) without the network: \<open>table\<close> is the table
  element found in the page, given by the stripped texts of the cells of each of its
  rows, or \<open>None\<close> when the page has no such table.
\<close>

definition scrape :: "string list list option \<Rightarrow> cell list list" where
  "scrape table =
     (let matrix = (case table of
                      None \<Rightarrow> []
                    | Some rows \<Rightarrow>
                        map (map parse_value) (filter (\<lambda>cols_text. cols_text \<noteq> []) rows))
      in if length matrix > 1 then drop 1 matrix else [])"

section \<open>Arithmetic of numpy floats\<close>

fun fl_add :: "npfloat \<Rightarrow> npfloat \<Rightarrow> npfloat" where
  "fl_add (Fin a) (Fin b) = Fin (a + b)"
| "fl_add NaN y = NaN"
| "fl_add x NaN = NaN"
| "fl_add PInf NInf = NaN"
| "fl_add NInf PInf = NaN"
| "fl_add PInf y = PInf"
| "fl_add x PInf = PInf"
| "fl_add NInf y = NInf"
| "fl_add x NInf = NInf"

fun fl_neg :: "npfloat \<Rightarrow> npfloat" where
  "fl_neg (Fin a) = Fin (- a)"
| "fl_neg PInf = NInf"
| "fl_neg NInf = PInf"
| "fl_neg NaN = NaN"

definition fl_sub :: "npfloat \<Rightarrow> npfloat \<Rightarrow> npfloat" where
  "fl_sub x y = fl_add x (fl_neg y)"

text \<open>
  Division as numpy does it: a warning and a special value, never an exception.
  (A real number has no signed zero: a zero divisor counts as \<open>+0\<close>.)
\<close>

fun fl_div :: "npfloat \<Rightarrow> npfloat \<Rightarrow> npfloat" where
  "fl_div (Fin a) (Fin b) =
     (if b = 0 then (if a = 0 then NaN else if 0 < a then PInf else NInf)
      else Fin (a / b))"
| "fl_div NaN y = NaN"
| "fl_div x NaN = NaN"
| "fl_div (Fin a) y = Fin 0"
| "fl_div PInf (Fin b) = (if 0 \<le> b then PInf else NInf)"
| "fl_div NInf (Fin b) = (if 0 \<le> b then NInf else PInf)"
| "fl_div PInf PInf = NaN"
| "fl_div PInf NInf = NaN"
| "fl_div NInf PInf = NaN"
| "fl_div NInf NInf = NaN"

text \<open>Python's \<open><\<close> on floats: false as soon as one side is NaN.\<close>

fun fl_lt :: "npfloat \<Rightarrow> npfloat \<Rightarrow> bool" where
  "fl_lt (Fin a) (Fin b) = (a < b)"
| "fl_lt NaN y = False"
| "fl_lt x NaN = False"
| "fl_lt x NInf = False"
| "fl_lt PInf y = False"
| "fl_lt NInf y = True"
| "fl_lt (Fin a) PInf = True"

text \<open>\<^verbatim>\<open>arr.min()\<close> and \<^verbatim>\<open>arr.max()\<close>: a NaN in the array is the result.\<close>

definition fl_min :: "npfloat \<Rightarrow> npfloat \<Rightarrow> npfloat" where
  "fl_min x y = (if x = NaN \<or> y = NaN then NaN else if fl_lt y x then y else x)"

definition fl_max :: "npfloat \<Rightarrow> npfloat \<Rightarrow> npfloat" where
  "fl_max x y = (if x = NaN \<or> y = NaN then NaN else if fl_lt x y then y else x)"

definition amin :: "npfloat list \<Rightarrow> error + npfloat" where
  "amin arr = (case arr of [] \<Rightarrow> Inl ValueError | x # xs \<Rightarrow> Inr (fold fl_min xs x))"

definition amax :: "npfloat list \<Rightarrow> error + npfloat" where
  "amax arr = (case arr of [] \<Rightarrow> Inl ValueError | x # xs \<Rightarrow> Inr (fold fl_max xs x))"

section \<open>The engine\<close>

subsection \<open>Feature vectors\<close>

text \<open>\<^verbatim>\<open>row[3] != 0\<close>: a text is never equal to a number, and neither is NaN.\<close>

fun nonzero :: "cell \<Rightarrow> bool" where
  "nonzero (IntV i) = (i \<noteq> 0)"
| "nonzero (FloatV (Fin r)) = (r \<noteq> 0)"
| "nonzero (FloatV f) = True"
| "nonzero (TextV s) = True"

text \<open>
  The body of the loop of \<^verbatim>\<open>analyze\<close> (lines 46 to 57). Reading \<^verbatim>\<open>row[10]\<close> and the
  cells before it raises \<^verbatim>\<open>IndexError\<close> on a row of fewer than 11 cells.
\<close>

definition features :: "cell list \<Rightarrow> error + cell list" where
  "features row =
     (if length row < 11 then Inl IndexError
      else
        let opening = row ! 2;
            closing = (if nonzero (row ! 3) then row ! 3 else row ! 2);
            change = row ! 4;
            monthly = row ! 5;
            annual = row ! 6;
            pe = row ! 7;
            dividend = row ! 8;
            volume = row ! 9;
            val = row ! 10
        in Inr [opening, closing, change, monthly, annual, pe, dividend, volume, val])"

text \<open>A loop that stops at the first exception.\<close>

fun collect :: "('a \<Rightarrow> error + 'b) \<Rightarrow> 'a list \<Rightarrow> error + 'b list" where
  "collect f [] = Inr []"
| "collect f (x # xs) =
     (case f x of
        Inl e \<Rightarrow> Inl e
      | Inr y \<Rightarrow> (case collect f xs of Inl e \<Rightarrow> Inl e | Inr ys \<Rightarrow> Inr (y # ys)))"

definition numeric_data :: "cell list list \<Rightarrow> error + cell list list" where
  "numeric_data matrix = collect features matrix"

text \<open>
  One entry of \<^verbatim>\<open>np.array(numeric_data, dtype=float)\<close>. A text is converted with
  \<^verbatim>\<open>float()\<close>, which raises \<^verbatim>\<open>ValueError\<close>. An infinity or a NaN passes the conversion
  and is refused, with \<^verbatim>\<open>ValueError\<close> again, by the input validation of scikit-learn
  (an infinity by \<^verbatim>\<open>MinMaxScaler\<close>, a NaN by \<^verbatim>\<open>PCA\<close>) before anything is returned;
  the model raises it here, so the matrices below hold real numbers.
\<close>

fun to_float :: "cell \<Rightarrow> error + real" where
  "to_float (IntV i) = Inr (of_int i)"
| "to_float (FloatV (Fin r)) = Inr r"
| "to_float (FloatV f) = Inl ValueError"
| "to_float (TextV s) = (case py_float s of Some (Fin r) \<Rightarrow> Inr r | _ \<Rightarrow> Inl ValueError)"

definition np_array :: "cell list list \<Rightarrow> error + real list list" where
  "np_array rows = collect (collect to_float) rows"

subsection \<open>Normalizer\<close>

definition column :: "real list list \<Rightarrow> nat \<Rightarrow> real list" where
  "column X j = map (\<lambda>row. row ! j) X"

definition ncols :: "real list list \<Rightarrow> nat" where
  "ncols X = length (hd X)"

text \<open>\<^verbatim>\<open>np.min(X, axis=0)\<close> and \<^verbatim>\<open>np.max(X, axis=0)\<close> of a matrix with at least one row.\<close>

definition min_axis0 :: "real list list \<Rightarrow> real list" where
  "min_axis0 X = map (\<lambda>j. Min (set (column X j))) [0..<ncols X]"

definition max_axis0 :: "real list list \<Rightarrow> real list" where
  "max_axis0 X = map (\<lambda>j. Max (set (column X j))) [0..<ncols X]"

text \<open>
  \<^verbatim>\<open>MinMaxScaler().fit_transform(X)\<close> of scikit-learn, with the default feature range
  \<open>(0, 1)\<close>: per column, \<open>scale = 1 / (max - min)\<close>, where a range of zero is replaced
  by one, \<open>min_ = 0 - min * scale\<close>, and the result is \<open>X * scale + min_\<close>. (Recent
  versions also replace a range below ten machine epsilons; over the real numbers
  only the range zero is replaced.) The array of an empty list is one-dimensional,
  which the scaler refuses with \<^verbatim>\<open>ValueError\<close>. With \<open>copy\<close> (the default) the
  result is a new array; without, \<open>X\<close> itself is overwritten. The function returns
  \<open>X\<close> as it is after the call, and the result.
\<close>

definition handle_zeros_in_scale :: "real \<Rightarrow> real" where
  "handle_zeros_in_scale r = (if r = 0 then 1 else r)"

definition fit_transform :: "bool \<Rightarrow> real list list \<Rightarrow> error + (real list list \<times> real list list)" where
  "fit_transform copy X =
     (if X = [] then Inl ValueError
      else
        let data_min = min_axis0 X;
            data_max = max_axis0 X;
            data_range = map2 (-) data_max data_min;
            scale = map (\<lambda>r. 1 / handle_zeros_in_scale r) data_range;
            min' = map2 (\<lambda>m s. 0 - m * s) data_min scale;
            X_scaled = map (\<lambda>row. map2 (+) (map2 (*) row scale) min') X
        in Inr (if copy then X else X_scaled, X_scaled))"

subsection \<open>Principal-axis scorer\<close>

text \<open>
  \<^verbatim>\<open>PCA(n_components=1).fit_transform(X_scaled).flatten()\<close> is scikit-learn's: one
  score per row, the projection of the row on the first principal axis of the whole
  matrix. The axis is not computed here: the projection is a parameter \<open>pc1\<close> of the
  model, a function of the matrix and the row, and every theorem holds for each
  \<open>pc1\<close>.
\<close>

definition pca_scores :: "(real list list \<Rightarrow> real list \<Rightarrow> real) \<Rightarrow> real list list \<Rightarrow> real list" where
  "pca_scores pc1 X_scaled = map (pc1 X_scaled) X_scaled"

subsection \<open>Ideal-point scorer\<close>

definition benefit_idx :: "nat list" where
  "benefit_idx = [2, 3, 4, 6, 7, 8]"

definition cost_idx :: "nat list" where
  "cost_idx = [0, 1, 5]"

text \<open>The loop of lines 78 and 79: the two vectors exchange their entries at \<open>i\<close>.\<close>

definition swap_at :: "nat \<Rightarrow> real list \<times> real list \<Rightarrow> real list \<times> real list" where
  "swap_at i bw = (case bw of (b, w) \<Rightarrow> (b[i := w ! i], w[i := b ! i]))"

definition ideal_points :: "real list list \<Rightarrow> real list \<times> real list" where
  "ideal_points X_scaled = fold swap_at cost_idx (max_axis0 X_scaled, min_axis0 X_scaled)"

definition ideal_best :: "real list list \<Rightarrow> real list" where
  "ideal_best X_scaled = fst (ideal_points X_scaled)"

definition ideal_worst :: "real list list \<Rightarrow> real list" where
  "ideal_worst X_scaled = snd (ideal_points X_scaled)"

text \<open>\<^verbatim>\<open>np.linalg.norm(X_scaled - p, axis=1)\<close>, for one row.\<close>

definition euclid_dist :: "real list \<Rightarrow> real list \<Rightarrow> real" where
  "euclid_dist row p = sqrt (sum_list (map (\<lambda>d. d ^ 2) (map2 (-) row p)))"

definition dist_best :: "real list list \<Rightarrow> real list" where
  "dist_best X_scaled = map (\<lambda>row. euclid_dist row (ideal_best X_scaled)) X_scaled"

definition dist_worst :: "real list list \<Rightarrow> real list" where
  "dist_worst X_scaled = map (\<lambda>row. euclid_dist row (ideal_worst X_scaled)) X_scaled"

definition topsis_scores :: "real list list \<Rightarrow> npfloat list" where
  "topsis_scores X_scaled =
     map2 (\<lambda>dw db. fl_div (Fin dw) (Fin (db + dw))) (dist_worst X_scaled) (dist_best X_scaled)"

subsection \<open>Weighted-penalty scorer\<close>

definition weights :: "real list" where
  "weights = [- 0.2, - 0.2, - 0.2, 0.2, 0.2, - 0.2, 0.2, 0.2, 0.2]"

definition dot :: "real list \<Rightarrow> real list \<Rightarrow> real" where
  "dot row w = sum_list (map2 (*) row w)"

definition pe_penalty :: "real list list \<Rightarrow> real list" where
  "pe_penalty X = map (\<lambda>pe. tanh (pe / 50)) (column X 5)"

definition weighted_scores :: "real list list \<Rightarrow> real list list \<Rightarrow> real list" where
  "weighted_scores X_scaled X = map2 (-) (map (\<lambda>row. dot row weights) X_scaled) (pe_penalty X)"

subsection \<open>Score combiner\<close>

text \<open>The local function \<^verbatim>\<open>normalize\<close> (lines 108 and 109).\<close>

definition normalize_arr :: "npfloat list \<Rightarrow> error + npfloat list" where
  "normalize_arr arr =
     (case amin arr of
        Inl e \<Rightarrow> Inl e
      | Inr mn \<Rightarrow>
          (case amax arr of
             Inl e \<Rightarrow> Inl e
           | Inr mx \<Rightarrow>
               Inr (map (\<lambda>x. fl_div (fl_sub x mn) (fl_add (fl_sub mx mn) (Fin (1 / 10 ^ 9)))) arr)))"

definition final_score :: "npfloat list \<Rightarrow> npfloat list \<Rightarrow> npfloat list \<Rightarrow> npfloat list" where
  "final_score pca_norm topsis_norm weighted_norm =
     map (\<lambda>(p, t, w). fl_div (fl_add (fl_add p t) w) (Fin 3))
       (zip pca_norm (zip topsis_norm weighted_norm))"

subsection \<open>Ranker\<close>

text \<open>
  \<^verbatim>\<open>sorted(matrix, key=lambda r: r[-1], reverse=True)\<close>. Python's sort is stable, it
  compares keys with \<open><\<close> only, and with \<^verbatim>\<open>reverse=True\<close> it sorts the reversed list
  and reverses the result. The model is the insertion sort with these three
  properties. The last cell of every row is the float that \<^verbatim>\<open>analyze\<close> has appended.
\<close>

fun score_key :: "cell list \<Rightarrow> npfloat" where
  "score_key [] = NaN"
| "score_key (c # cs) =
     (case last (c # cs) of FloatV f \<Rightarrow> f | IntV i \<Rightarrow> Fin (of_int i) | TextV s \<Rightarrow> NaN)"

fun insort_lt :: "('a \<Rightarrow> npfloat) \<Rightarrow> 'a \<Rightarrow> 'a list \<Rightarrow> 'a list" where
  "insort_lt key x [] = [x]"
| "insort_lt key x (y # ys) =
     (if fl_lt (key y) (key x) then y # insort_lt key x ys else x # y # ys)"

definition stable_sort :: "('a \<Rightarrow> npfloat) \<Rightarrow> 'a list \<Rightarrow> 'a list" where
  "stable_sort key xs = foldr (insort_lt key) xs []"

definition sorted_reverse :: "('a \<Rightarrow> npfloat) \<Rightarrow> 'a list \<Rightarrow> 'a list" where
  "sorted_reverse key xs = rev (stable_sort key (rev xs))"

text \<open>Lines 118 and 119: every row gets its score appended.\<close>

definition append_scores :: "cell list list \<Rightarrow> npfloat list \<Rightarrow> cell list list" where
  "append_scores matrix fs = map2 (\<lambda>row s. row @ [FloatV s]) matrix fs"

subsection \<open>\<^verbatim>\<open>analyze\<close>\<close>

definition analyze ::
  "(real list list \<Rightarrow> real list \<Rightarrow> real) \<Rightarrow> cell list list \<Rightarrow> error + cell list list" where
  "analyze pc1 matrix =
     (case numeric_data matrix of
        Inl e \<Rightarrow> Inl e
      | Inr nd \<Rightarrow>
     (case np_array nd of
        Inl e \<Rightarrow> Inl e
      | Inr X0 \<Rightarrow>
     (case fit_transform True X0 of
        Inl e \<Rightarrow> Inl e
      | Inr (X, X_scaled) \<Rightarrow>
     (case normalize_arr (map Fin (pca_scores pc1 X_scaled)) of
        Inl e \<Rightarrow> Inl e
      | Inr pca_norm \<Rightarrow>
     (case normalize_arr (topsis_scores X_scaled) of
        Inl e \<Rightarrow> Inl e
      | Inr topsis_norm \<Rightarrow>
     (case normalize_arr (map Fin (weighted_scores X_scaled X)) of
        Inl e \<Rightarrow> Inl e
      | Inr weighted_norm \<Rightarrow>
          Inr (sorted_reverse score_key
                 (append_scores matrix
                    (final_score pca_norm topsis_norm weighted_norm)))))))))"

text \<open>The script's last lines: \<^verbatim>\<open>analyze(scrape())\<close>.\<close>

definition pipeline ::
  "(real list list \<Rightarrow> real list \<Rightarrow> real) \<Rightarrow> string list list option \<Rightarrow> error + cell list list" where
  "pipeline pc1 table = analyze pc1 (scrape table)"

section \<open>The specification's formulas\<close>




text \<open>What the scaler computes for an entry \<open>x\<close> of column \<open>j\<close>, in one formula.\<close>

definition scaled_entry :: "real list list \<Rightarrow> nat \<Rightarrow> real \<Rightarrow> real" where
  "scaled_entry X j x =
     (x - Min (set (column X j))) /
     handle_zeros_in_scale (Max (set (column X j)) - Min (set (column X j)))"

text \<open>A score of the unit interval; no special value is.\<close>

fun in_unit :: "npfloat \<Rightarrow> bool" where
  "in_unit (Fin r) = (0 \<le> r \<and> r \<le> 1)"
| "in_unit f = False"

text \<open>The number a finite score stands for.\<close>

fun fin_val :: "npfloat \<Rightarrow> real" where
  "fin_val (Fin r) = r"
| "fin_val f = 0"

section \<open>Example inputs\<close>

text \<open>
  Two records; the closing cell of the first is zero. Their feature matrix is \<open>ex_X\<close>
  below.
\<close>

definition ex_m :: "cell list list" where
  "ex_m =
     [[IntV 1, TextV ''ALPHA'', IntV 100, IntV 0, FloatV (Fin 1), IntV 2, IntV 3, IntV 10,
       IntV 4, IntV 500, IntV 7],
      [IntV 2, TextV ''BETA'', IntV 200, IntV 150, FloatV (Fin 2), IntV 1, IntV 5, IntV 20,
       IntV 1, IntV 300, IntV 7]]"

text \<open>Two records with the same features. Their feature matrix is \<open>same_X\<close> below.\<close>

definition same_m :: "cell list list" where
  "same_m =
     [[IntV 1, TextV ''ALPHA'', IntV 100, IntV 100, IntV 1, IntV 2, IntV 3, IntV 10,
       IntV 4, IntV 500, IntV 7],
      [IntV 2, TextV ''BETA'', IntV 100, IntV 100, IntV 1, IntV 2, IntV 3, IntV 10,
       IntV 4, IntV 500, IntV 7]]"


text \<open>A feature matrix of two records; the last column is constant.\<close>

definition ex_X :: "real list list" where
  "ex_X = [[100, 100, 1, 2, 3, 10, 4, 500, 7], [200, 150, 2, 1, 5, 20, 1, 300, 7]]"

text \<open>
  Two records with the same nine features, and what the scaler makes of them: every
  column is constant.
\<close>

definition same_X :: "real list list" where
  "same_X = [[100, 100, 1, 2, 3, 10, 4, 500, 7], [100, 100, 1, 2, 3, 10, 4, 500, 7]]"

definition deg_X :: "real list list" where
  "deg_X = [[0, 0, 0, 0, 0, 0, 0, 0, 0], [0, 0, 0, 0, 0, 0, 0, 0, 0]]"

text \<open>A scaled matrix whose first row is the best and whose second the worst in every column.\<close>

definition ex_Xs :: "real list list" where
  "ex_Xs = [[0, 0, 1, 1, 1, 0, 1, 1, 1], [1, 1, 0, 0, 0, 1, 0, 0, 0]]"

section \<open>Lemmas\<close>

subsection \<open>The sort\<close>

lemma mset_insort_lt: "mset (insort_lt key x xs) = add_mset x (mset xs)"
  by (induction xs) auto

lemma mset_stable_sort: "mset (stable_sort key xs) = mset xs"
  by (induction xs) (auto simp: stable_sort_def mset_insort_lt)

lemma mset_sorted_reverse: "mset (sorted_reverse key xs) = mset xs"
  by (simp add: sorted_reverse_def mset_stable_sort)

lemma insort_lt_fin:
  "\<forall>y \<in> set (x # xs). key y = Fin (f y) \<Longrightarrow> insort_lt key x xs = insort_key f x xs"
  by (induction xs) (auto simp: not_less)

lemma stable_sort_fin:
  "\<forall>y \<in> set xs. key y = Fin (f y) \<Longrightarrow> stable_sort key xs = List.sort_key f xs"
proof (induction xs)
  case Nil
  then show ?case by (simp add: stable_sort_def)
next
  case (Cons x xs)
  then have "stable_sort key xs = List.sort_key f xs" by simp
  moreover have "\<forall>y \<in> set (x # List.sort_key f xs). key y = Fin (f y)"
    using Cons.prems by simp
  ultimately show ?case
    using insort_lt_fin[of x "List.sort_key f xs" key f] by (simp add: stable_sort_def)
qed

lemma fl_lt_nan_right [simp]: "fl_lt x NaN = False"
  by (cases x) auto

lemma fl_add_nan_right [simp]: "fl_add x NaN = NaN"
  by (cases x) auto

lemma fl_div_nan_right [simp]: "fl_div x NaN = NaN"
  by (cases x) auto

lemma insort_lt_nan:
  "key x = NaN \<Longrightarrow> insort_lt key x xs = x # xs"
  by (cases xs) (auto)

lemma stable_sort_nan:
  "\<forall>y \<in> set xs. key y = NaN \<Longrightarrow> stable_sort key xs = xs"
  by (induction xs) (auto simp: stable_sort_def insort_lt_nan)

lemma sorted_reverse_nan:
  "\<forall>y \<in> set xs. key y = NaN \<Longrightarrow> sorted_reverse key xs = xs"
  by (simp add: sorted_reverse_def stable_sort_nan)

lemma sorted_reverse_fin:
  "\<forall>y \<in> set xs. key y = Fin (f y) \<Longrightarrow> sorted_reverse key xs = rev (List.sort_key f (rev xs))"
  by (simp add: sorted_reverse_def stable_sort_fin)

lemma sorted_reverse_fin_sorted:
  assumes "\<forall>y \<in> set xs. key y = Fin (f y)"
  shows "sorted_wrt (\<lambda>a b. f a \<ge> f b) (sorted_reverse key xs)"
proof -
  have "sorted (map f (List.sort_key f (rev xs)))" by simp
  then have "sorted_wrt (\<lambda>a b. f a \<le> f b) (List.sort_key f (rev xs))"
    by (simp add: sorted_map)
  then show ?thesis
    by (simp add: sorted_reverse_fin[OF assms] sorted_wrt_rev)
qed

lemma sorted_reverse_fin_stable:
  assumes "\<forall>y \<in> set xs. key y = Fin (f y)"
  shows "filter (\<lambda>y. key y = k) (sorted_reverse key xs) = filter (\<lambda>y. key y = k) xs"
proof (cases k)
  case (Fin v)
  have set_eq: "set (sorted_reverse key xs) = set xs"
    using mset_sorted_reverse[of key xs] by (metis set_mset_mset)
  have "filter (\<lambda>y. key y = k) (sorted_reverse key xs) = filter (\<lambda>y. f y = v) (sorted_reverse key xs)"
    using assms Fin set_eq by (intro filter_cong) auto
  also have "\<dots> = rev (filter (\<lambda>y. f y = v) (List.sort_key f (rev xs)))"
    by (simp add: sorted_reverse_fin[OF assms] rev_filter)
  also have "\<dots> = filter (\<lambda>y. f y = v) xs"
    by (simp add: sort_key_stable rev_filter)
  also have "\<dots> = filter (\<lambda>y. key y = k) xs"
    using assms Fin by (intro filter_cong) auto
  finally show ?thesis .
next
  case PInf
  have set_eq: "set (sorted_reverse key xs) = set xs"
    using mset_sorted_reverse[of key xs] by (metis set_mset_mset)
  have "filter (\<lambda>y. key y = k) (sorted_reverse key xs) = []" 
    using assms PInf set_eq by (auto simp: filter_empty_conv)
  moreover have "filter (\<lambda>y. key y = k) xs = []" using assms PInf by (auto simp: filter_empty_conv)
  ultimately show ?thesis by simp
next
  case NInf
  have set_eq: "set (sorted_reverse key xs) = set xs"
    using mset_sorted_reverse[of key xs] by (metis set_mset_mset)
  have "filter (\<lambda>y. key y = k) (sorted_reverse key xs) = []" 
    using assms NInf set_eq by (auto simp: filter_empty_conv)
  moreover have "filter (\<lambda>y. key y = k) xs = []" using assms NInf by (auto simp: filter_empty_conv)
  ultimately show ?thesis by simp
next
  case NaN
  have set_eq: "set (sorted_reverse key xs) = set xs"
    using mset_sorted_reverse[of key xs] by (metis set_mset_mset)
  have "filter (\<lambda>y. key y = k) (sorted_reverse key xs) = []" 
    using assms NaN set_eq by (auto simp: filter_empty_conv)
  moreover have "filter (\<lambda>y. key y = k) xs = []" using assms NaN by (auto simp: filter_empty_conv)
  ultimately show ?thesis by simp
qed

subsection \<open>Minimum, maximum and \<^verbatim>\<open>normalize\<close>\<close>

lemma fold_fl_min_fin: "fold fl_min (map Fin xs) (Fin x) = Fin (Min (set (x # xs)))"
proof (induction xs arbitrary: x)
  case Nil
  then show ?case by simp
next
  case (Cons y ys)
  have "fl_min (Fin y) (Fin x) = Fin (min x y)" by (auto simp: fl_min_def)
  then have "fold fl_min (map Fin (y # ys)) (Fin x) = Fin (Min (set (min x y # ys)))"
    using Cons.IH[of "min x y"] by simp
  also have "Min (set (min x y # ys)) = Min (set (x # y # ys))"
    by (cases "ys = []") (auto simp: Min_insert min.assoc)
  finally show ?case .
qed

lemma fold_fl_max_fin: "fold fl_max (map Fin xs) (Fin x) = Fin (Max (set (x # xs)))"
proof (induction xs arbitrary: x)
  case Nil
  then show ?case by simp
next
  case (Cons y ys)
  have "fl_max (Fin y) (Fin x) = Fin (max x y)" by (auto simp: fl_max_def)
  then have "fold fl_max (map Fin (y # ys)) (Fin x) = Fin (Max (set (max x y # ys)))"
    using Cons.IH[of "max x y"] by simp
  also have "Max (set (max x y # ys)) = Max (set (x # y # ys))"
    by (cases "ys = []") (auto simp: Max_insert max.assoc)
  finally show ?case .
qed

lemma fold_fl_min_nan_acc: "fold fl_min xs NaN = NaN"
  by (induction xs) (auto simp: fl_min_def)

lemma fold_fl_min_nan: "NaN \<in> set xs \<Longrightarrow> fold fl_min xs x = NaN"
  by (induction xs arbitrary: x) (auto simp: fl_min_def fold_fl_min_nan_acc)

lemma amin_nan: "NaN \<in> set arr \<Longrightarrow> amin arr = Inr NaN"
  by (cases arr) (auto simp: amin_def fold_fl_min_nan fold_fl_min_nan_acc)

lemma normalize_arr_nan:
  assumes "NaN \<in> set arr"
  shows "normalize_arr arr = Inr (replicate (length arr) NaN)"
proof -
  obtain mx where mx: "amax arr = Inr mx"
    using assms by (cases arr) (auto simp: amax_def)
  have "map (\<lambda>x. fl_div (fl_sub x NaN) (fl_add (fl_sub mx NaN) (Fin (1 / 10 ^ 9)))) arr
        = replicate (length arr) NaN"
    by (induction arr) (auto simp: fl_sub_def)
  then show ?thesis
    using mx amin_nan[OF assms] by (simp add: normalize_arr_def)
qed

lemma normalize_arr_fin:
  assumes "xs \<noteq> []"
  shows "normalize_arr (map Fin xs) =
    Inr (map (\<lambda>x. Fin ((x - Min (set xs)) / (Max (set xs) - Min (set xs) + 1 / 10 ^ 9))) xs)"
proof -
  obtain y ys where xs: "xs = y # ys" using assms by (cases xs) auto
  have mn: "amin (map Fin xs) = Inr (Fin (Min (set xs)))"
    by (simp add: xs amin_def fold_fl_min_fin del: set_simps)
  have mx: "amax (map Fin xs) = Inr (Fin (Max (set xs)))"
    by (simp add: xs amax_def fold_fl_max_fin del: set_simps)
  have "Min (set xs) \<le> y" "y \<le> Max (set xs)"
    by (simp_all add: xs)
  then have le: "Min (set xs) \<le> Max (set xs)"
    by linarith
  have pos: "Max (set xs) - Min (set xs) + 1 / 10 ^ 9 \<noteq> 0"
    using le by (smt (verit) divide_pos_pos zero_less_power zero_less_one)
  show ?thesis
    using pos by (simp add: normalize_arr_def mn mx fl_sub_def)
qed

lemma normalize_arr_fin_range:
  fixes xs :: "real list"
  assumes "xs \<noteq> []" "x \<in> set xs"
  shows "0 \<le> (x - Min (set xs)) / (Max (set xs) - Min (set xs) + 1 / 10 ^ 9)"
    and "(x - Min (set xs)) / (Max (set xs) - Min (set xs) + 1 / 10 ^ 9) \<le> 1"
proof -
  have a: "Min (set xs) \<le> x" using assms by simp
  have b: "x \<le> Max (set xs)" using assms by simp
  have e: "(0::real) < 1 / 10 ^ 9" by simp
  have d: "0 < Max (set xs) - Min (set xs) + 1 / 10 ^ 9" using a b e by linarith
  show "0 \<le> (x - Min (set xs)) / (Max (set xs) - Min (set xs) + 1 / 10 ^ 9)"
    using a d by (simp add: divide_nonneg_pos)
  have "x - Min (set xs) \<le> Max (set xs) - Min (set xs) + 1 / 10 ^ 9" using b e by linarith
  then show "(x - Min (set xs)) / (Max (set xs) - Min (set xs) + 1 / 10 ^ 9) \<le> 1"
    using d by (simp add: divide_le_eq)
qed

subsection \<open>Loops\<close>

lemma collect_length: "collect f xs = Inr ys \<Longrightarrow> length ys = length xs"
  by (induction xs arbitrary: ys) (auto split: sum.splits)

lemma collect_nth: "collect f xs = Inr ys \<Longrightarrow> i < length xs \<Longrightarrow> f (xs ! i) = Inr (ys ! i)"
proof (induction xs arbitrary: ys i)
  case Nil
  then show ?case by simp
next
  case (Cons x xs)
  then obtain y ys' where f: "f x = Inr y" and c: "collect f xs = Inr ys'" and ys: "ys = y # ys'"
    by (auto split: sum.splits)
  show ?case
  proof (cases i)
    case 0
    then show ?thesis using f ys by simp
  next
    case (Suc k)
    then show ?thesis using Cons.IH[OF c, of k] Cons.prems(2) ys by simp
  qed
qed

lemma collect_total:
  "(\<And>x. x \<in> set xs \<Longrightarrow> \<exists>y. f x = Inr y) \<Longrightarrow> \<exists>ys. collect f xs = Inr ys"
proof (induction xs)
  case Nil
  then show ?case by simp
next
  case (Cons x xs)
  then obtain y where "f x = Inr y" by auto
  moreover obtain ys where "collect f xs = Inr ys" using Cons by auto
  ultimately show ?case by simp
qed

lemma features_Inr:
  assumes "features row = Inr v"
  shows "11 \<le> length row"
    and "v = [row ! 2, if nonzero (row ! 3) then row ! 3 else row ! 2, row ! 4, row ! 5,
              row ! 6, row ! 7, row ! 8, row ! 9, row ! 10]"
  using assms by (auto simp: features_def Let_def split: if_splits)

lemma features_length: "features row = Inr v \<Longrightarrow> length v = 9"
  using features_Inr(2)[of row v] by simp

lemma numeric_data_rows:
  assumes "numeric_data m = Inr nd"
  shows "length nd = length m"
    and "i < length m \<Longrightarrow> features (m ! i) = Inr (nd ! i)"
  using assms collect_length collect_nth unfolding numeric_data_def by blast+

lemma np_array_rows:
  assumes "np_array nd = Inr X"
  shows "length X = length nd"
    and "i < length nd \<Longrightarrow> length (X ! i) = length (nd ! i)"
    and "i < length nd \<Longrightarrow> j < length (nd ! i) \<Longrightarrow> to_float (nd ! i ! j) = Inr (X ! i ! j)"
proof -
  show "length X = length nd" using assms collect_length unfolding np_array_def by blast
  have row: "collect to_float (nd ! i) = Inr (X ! i)" if "i < length nd" for i
    using assms collect_nth that unfolding np_array_def by blast
  show "i < length nd \<Longrightarrow> length (X ! i) = length (nd ! i)"
    using row collect_length by blast
  show "i < length nd \<Longrightarrow> j < length (nd ! i) \<Longrightarrow> to_float (nd ! i ! j) = Inr (X ! i ! j)"
    using row collect_nth by blast
qed

text \<open>The feature matrix of a successful run: one row of nine numbers per record.\<close>

lemma feature_matrix:
  assumes "numeric_data m = Inr nd" "np_array nd = Inr X"
  shows "length X = length m"
    and "\<forall>row \<in> set X. length row = 9"
proof -
  show len: "length X = length m"
    using assms numeric_data_rows(1) np_array_rows(1) by simp
  show "\<forall>row \<in> set X. length row = 9"
  proof
    fix row assume "row \<in> set X"
    then obtain i where i: "i < length X" "row = X ! i" by (auto simp: in_set_conv_nth)
    then have "i < length m" "i < length nd" using len assms numeric_data_rows(1) by simp_all
    then show "length row = 9"
      using i np_array_rows(2)[OF assms(2)] numeric_data_rows(2)[OF assms(1)] features_length
      by metis
  qed
qed

subsection \<open>The normalizer\<close>

lemma axis0_length [simp]:
  "length (min_axis0 X) = ncols X" "length (max_axis0 X) = ncols X"
  by (simp_all add: min_axis0_def max_axis0_def)

lemma axis0_nth:
  "j < ncols X \<Longrightarrow> min_axis0 X ! j = Min (set (column X j))"
  "j < ncols X \<Longrightarrow> max_axis0 X ! j = Max (set (column X j))"
  by (simp_all add: min_axis0_def max_axis0_def)

lemma ncols_9: "X \<noteq> [] \<Longrightarrow> \<forall>row \<in> set X. length row = 9 \<Longrightarrow> ncols X = 9"
  by (cases X) (auto simp: ncols_def)

lemma column_nth [simp]: "i < length X \<Longrightarrow> column X j ! i = X ! i ! j"
  by (simp add: column_def)

lemma column_length [simp]: "length (column X j) = length X"
  by (simp add: column_def)

lemma column_bounds:
  assumes "i < length X"
  shows "Min (set (column X j)) \<le> X ! i ! j" "X ! i ! j \<le> Max (set (column X j))"
proof -
  have "X ! i ! j \<in> set (column X j)"
    using assms by (metis column_length column_nth nth_mem)
  then show "Min (set (column X j)) \<le> X ! i ! j" "X ! i ! j \<le> Max (set (column X j))"
    by simp_all
qed

lemma fit_transform_Inr:
  assumes "X \<noteq> []"
  shows "\<exists>Xs. fit_transform copy X = Inr (if copy then X else Xs, Xs) \<and> length Xs = length X"
  using assms by (simp add: fit_transform_def Let_def)

lemma fit_transform_nth:
  assumes ft: "fit_transform copy X = Inr (X', Xs)"
    and rect: "\<forall>row \<in> set X. length row = 9"
    and i: "i < length X"
  shows "length (Xs ! i) = 9"
    and "j < 9 \<Longrightarrow> Xs ! i ! j = scaled_entry X j (X ! i ! j)"
proof -
  have ne: "X \<noteq> []" using i by auto
  have nc: "ncols X = 9" using ne rect by (rule ncols_9)
  have li: "length (X ! i) = 9" using rect i by simp
  define scale where "scale = map (\<lambda>r. 1 / handle_zeros_in_scale r) (map2 (-) (max_axis0 X) (min_axis0 X))"
  define min' where "min' = map2 (\<lambda>m s. 0 - m * s) (min_axis0 X) scale"
  have Xs: "Xs = map (\<lambda>row. map2 (+) (map2 (*) row scale) min') X"
    using ft ne by (simp add: fit_transform_def Let_def scale_def min'_def)
  have ls: "length scale = 9" "length min' = 9"
    by (simp_all add: scale_def min'_def nc)
  show "length (Xs ! i) = 9"
    using i li ls by (simp add: Xs)
  show "Xs ! i ! j = scaled_entry X j (X ! i ! j)" if j: "j < 9"
  proof -
    have s: "scale ! j = 1 / handle_zeros_in_scale (Max (set (column X j)) - Min (set (column X j)))"
      using j nc by (simp add: scale_def axis0_nth)
    have m: "min' ! j = 0 - Min (set (column X j)) * scale ! j"
      using j nc ls by (simp add: min'_def axis0_nth)
    have "Xs ! i ! j = X ! i ! j * scale ! j + min' ! j"
      using i j li ls by (simp add: Xs)
    then show ?thesis
      by (simp add: s m scaled_entry_def diff_divide_distrib)
  qed
qed





subsection \<open>The value parser\<close>











subsection \<open>The ideal-point scorer\<close>

lemma ideal_points_9:
  assumes "ncols Xs = 9"
  shows "ideal_best Xs = (max_axis0 Xs)[0 := min_axis0 Xs ! 0, 1 := min_axis0 Xs ! 1, 5 := min_axis0 Xs ! 5]"
    and "ideal_worst Xs = (min_axis0 Xs)[0 := max_axis0 Xs ! 0, 1 := max_axis0 Xs ! 1, 5 := max_axis0 Xs ! 5]"
  using assms
  by (simp_all add: ideal_best_def ideal_worst_def ideal_points_def cost_idx_def swap_at_def)

lemma ideal_length:
  assumes "ncols Xs = 9"
  shows "length (ideal_best Xs) = 9" "length (ideal_worst Xs) = 9"
  using assms by (simp_all add: ideal_points_9)

lemma ideal_best_nth:
  assumes "ncols Xs = 9" "j < 9"
  shows "ideal_best Xs ! j =
    (if j \<in> set cost_idx then Min (set (column Xs j)) else Max (set (column Xs j)))"
  using assms by (auto simp: ideal_points_9 cost_idx_def nth_list_update axis0_nth)

lemma ideal_worst_nth:
  assumes "ncols Xs = 9" "j < 9"
  shows "ideal_worst Xs ! j =
    (if j \<in> set cost_idx then Max (set (column Xs j)) else Min (set (column Xs j)))"
  using assms by (auto simp: ideal_points_9 cost_idx_def nth_list_update axis0_nth)

lemma sum_squares_nonneg: "0 \<le> sum_list (map (\<lambda>d::real. d ^ 2) ds)"
  by (induction ds) auto

lemma sum_squares_zero:
  "sum_list (map (\<lambda>d::real. d ^ 2) ds) = 0 \<Longrightarrow> d \<in> set ds \<Longrightarrow> d = 0"
proof (induction ds)
  case Nil
  then show ?case by simp
next
  case (Cons x xs)
  have "0 \<le> x ^ 2" by simp
  moreover have "0 \<le> sum_list (map (\<lambda>d. d ^ 2) xs)" by (rule sum_squares_nonneg)
  moreover have "x ^ 2 + sum_list (map (\<lambda>d. d ^ 2) xs) = 0" using Cons.prems(1) by simp
  ultimately have "x ^ 2 = 0" "sum_list (map (\<lambda>d. d ^ 2) xs) = 0" by linarith+
  then show ?case using Cons by auto
qed

lemma euclid_dist_nonneg: "0 \<le> euclid_dist r p"
  unfolding euclid_dist_def by (rule real_sqrt_ge_zero) (rule sum_squares_nonneg)

lemma euclid_dist_self: "euclid_dist r r = 0"
proof -
  have "sum_list (map (\<lambda>d. d ^ 2) (map2 (-) r r)) = 0"
    by (induction r) auto
  then show ?thesis unfolding euclid_dist_def by simp
qed

lemma euclid_dist_zero:
  assumes "length r = length p" "euclid_dist r p = 0"
  shows "r = p"
proof (rule nth_equalityI)
  show "length r = length p" by fact
  fix i assume i: "i < length r"
  let ?ds = "map2 (-) r p"
  have "sqrt (sum_list (map (\<lambda>d. d ^ 2) ?ds)) = 0"
    using assms(2) unfolding euclid_dist_def .
  then have z: "sum_list (map (\<lambda>d. d ^ 2) ?ds) = 0"
    by simp
  have "?ds ! i = r ! i - p ! i" using i assms(1) by simp
  moreover have "?ds ! i \<in> set ?ds" using i assms(1) by (intro nth_mem) simp
  ultimately have "r ! i - p ! i = 0"
    using sum_squares_zero[OF z] by metis
  then show "r ! i = p ! i" by simp
qed

lemma topsis_length [simp]: "length (topsis_scores Xs) = length Xs"
  by (simp add: topsis_scores_def dist_best_def dist_worst_def)

lemma topsis_nth:
  assumes "i < length Xs"
  shows "topsis_scores Xs ! i =
    fl_div (Fin (euclid_dist (Xs ! i) (ideal_worst Xs)))
           (Fin (euclid_dist (Xs ! i) (ideal_best Xs) + euclid_dist (Xs ! i) (ideal_worst Xs)))"
  using assms by (simp add: topsis_scores_def dist_best_def dist_worst_def)

text \<open>A score is NaN or a number of the unit interval.\<close>

lemma topsis_nan_or_unit:
  assumes "i < length Xs"
  shows "topsis_scores Xs ! i = NaN \<or> in_unit (topsis_scores Xs ! i)"
proof -
  let ?db = "euclid_dist (Xs ! i) (ideal_best Xs)" and ?dw = "euclid_dist (Xs ! i) (ideal_worst Xs)"
  have nn: "0 \<le> ?db" "0 \<le> ?dw" by (rule euclid_dist_nonneg)+
  show ?thesis
  proof (cases "?db + ?dw = 0")
    case True
    then have "?dw = 0" using nn by linarith
    then show ?thesis using True by (simp add: topsis_nth[OF assms])
  next
    case False
    then have "0 < ?db + ?dw" using nn by linarith
    then have "0 \<le> ?dw / (?db + ?dw) \<and> ?dw / (?db + ?dw) \<le> 1"
      using nn by (simp add: divide_le_eq)
    then show ?thesis using False by (simp add: topsis_nth[OF assms])
  qed
qed

lemma topsis_nan_iff:
  assumes "i < length Xs"
  shows "topsis_scores Xs ! i = NaN \<longleftrightarrow>
    euclid_dist (Xs ! i) (ideal_best Xs) = 0 \<and> euclid_dist (Xs ! i) (ideal_worst Xs) = 0"
proof -
  let ?db = "euclid_dist (Xs ! i) (ideal_best Xs)" and ?dw = "euclid_dist (Xs ! i) (ideal_worst Xs)"
  have nn: "0 \<le> ?db" "0 \<le> ?dw" by (rule euclid_dist_nonneg)+
  have "?db + ?dw = 0 \<longleftrightarrow> ?db = 0 \<and> ?dw = 0" using nn by linarith
  then show ?thesis
    by (auto simp: topsis_nth[OF assms])
qed

text \<open>Both distances of a record are zero only when all records are equal.\<close>

lemma degenerate_all_equal:
  assumes rect: "\<forall>row \<in> set Xs. length row = 9"
    and i: "i < length Xs"
    and db: "euclid_dist (Xs ! i) (ideal_best Xs) = 0"
    and dw: "euclid_dist (Xs ! i) (ideal_worst Xs) = 0"
    and a: "a \<in> set Xs" and b: "b \<in> set Xs"
  shows "a = b"
proof -
  have ne: "Xs \<noteq> []" using i by auto
  have nc: "ncols Xs = 9" using ne rect by (rule ncols_9)
  have li: "length (Xs ! i) = 9" using rect i by simp
  have "Xs ! i = ideal_best Xs" "Xs ! i = ideal_worst Xs"
    using euclid_dist_zero db dw li ideal_length[OF nc] by simp_all
  then have bw: "ideal_best Xs = ideal_worst Xs" by simp
  have const: "Max (set (column Xs j)) = Min (set (column Xs j))" if "j < 9" for j
  proof -
    have e: "ideal_best Xs ! j = ideal_worst Xs ! j" by (simp only: bw)
    show ?thesis
    proof (cases "j \<in> set cost_idx")
      case True
      then have "ideal_best Xs ! j = Min (set (column Xs j))"
        "ideal_worst Xs ! j = Max (set (column Xs j))"
        using ideal_best_nth[OF nc that] ideal_worst_nth[OF nc that] by simp_all
      then show ?thesis using e by simp
    next
      case False
      then have "ideal_best Xs ! j = Max (set (column Xs j))"
        "ideal_worst Xs ! j = Min (set (column Xs j))"
        using ideal_best_nth[OF nc that] ideal_worst_nth[OF nc that] by simp_all
      then show ?thesis using e by simp
    qed
  qed
  have eq_min: "r ! j = Min (set (column Xs j))" if r: "r \<in> set Xs" and j: "j < 9" for r j
  proof -
    obtain k where k: "k < length Xs" "Xs ! k = r"
      using r unfolding in_set_conv_nth by blast
    have "Min (set (column Xs j)) \<le> r ! j" "r ! j \<le> Max (set (column Xs j))"
      using column_bounds[OF k(1), of j] by (simp_all only: k(2))
    then show ?thesis
      using const[OF j] by linarith
  qed
  show ?thesis
  proof (rule nth_equalityI)
    show "length a = length b" using rect a b by simp
    fix j assume "j < length a"
    then have "j < 9" using rect a by simp
    then show "a ! j = b ! j" using eq_min a b by simp
  qed
qed

lemma fit_transform_same_X: "fit_transform True same_X = Inr (same_X, deg_X)"
  by (simp add: fit_transform_def same_X_def deg_X_def Let_def min_axis0_def max_axis0_def
      ncols_def column_def handle_zeros_in_scale_def upt_conv_Cons)

lemma ideal_deg_X:
  "ideal_best deg_X = [0, 0, 0, 0, 0, 0, 0, 0, 0]" "ideal_worst deg_X = [0, 0, 0, 0, 0, 0, 0, 0, 0]"
  by (simp_all add: ideal_best_def ideal_worst_def ideal_points_def cost_idx_def swap_at_def
      deg_X_def min_axis0_def max_axis0_def ncols_def column_def upt_conv_Cons)

lemma dist_deg_X: "dist_best deg_X = [0, 0]" "dist_worst deg_X = [0, 0]"
  by (simp_all add: dist_best_def dist_worst_def ideal_deg_X euclid_dist_self)
    (simp_all add: deg_X_def euclid_dist_self)

lemma topsis_deg_X: "topsis_scores deg_X = [NaN, NaN]"
  by (simp add: topsis_scores_def dist_deg_X)

lemma ex_Xs_ideal: "ideal_best ex_Xs = ex_Xs ! 0" "ideal_worst ex_Xs = ex_Xs ! 1"
  by (simp_all add: ideal_best_def ideal_worst_def ideal_points_def cost_idx_def swap_at_def
      ex_Xs_def min_axis0_def max_axis0_def ncols_def column_def upt_conv_Cons)

lemma analyze_empty: "analyze pc1 [] = Inl ValueError"
  by (simp add: analyze_def numeric_data_def np_array_def fit_transform_def)

lemma ex_X_shape: "ex_X \<noteq> []" "\<forall>row \<in> set ex_X. length row = 9"
  by (simp_all add: ex_X_def)

subsection \<open>The structure of a run\<close>

lemma analyze_Inr:
  assumes "analyze pc1 m = Inr out"
  obtains nd X Xs pn tn wn where
    "numeric_data m = Inr nd" "np_array nd = Inr X" "fit_transform True X = Inr (X, Xs)"
    "normalize_arr (map Fin (pca_scores pc1 Xs)) = Inr pn"
    "normalize_arr (topsis_scores Xs) = Inr tn"
    "normalize_arr (map Fin (weighted_scores Xs X)) = Inr wn"
    "out = sorted_reverse score_key (append_scores m (final_score pn tn wn))"
proof -
  obtain nd where nd: "numeric_data m = Inr nd"
    using assms by (cases "numeric_data m") (simp_all add: analyze_def)
  obtain X0 where X0: "np_array nd = Inr X0"
    using assms nd by (cases "np_array nd") (simp_all add: analyze_def)
  obtain X Xs where ft: "fit_transform True X0 = Inr (X, Xs)"
    using assms nd X0 by (cases "fit_transform True X0") (auto simp: analyze_def)
  have XX: "X = X0"
    using ft by (auto simp: fit_transform_def Let_def split: if_splits)
  obtain pn where pn: "normalize_arr (map Fin (pca_scores pc1 Xs)) = Inr pn"
    using assms nd X0 ft
    by (cases "normalize_arr (map Fin (pca_scores pc1 Xs))") (simp_all add: analyze_def)
  obtain tn where tn: "normalize_arr (topsis_scores Xs) = Inr tn"
    using assms nd X0 ft pn
    by (cases "normalize_arr (topsis_scores Xs)") (simp_all add: analyze_def)
  obtain wn where wn: "normalize_arr (map Fin (weighted_scores Xs X)) = Inr wn"
    using assms nd X0 ft pn tn
    by (cases "normalize_arr (map Fin (weighted_scores Xs X))") (simp_all add: analyze_def)
  have "out = sorted_reverse score_key (append_scores m (final_score pn tn wn))"
    using assms nd X0 ft pn tn wn by (simp add: analyze_def)
  then show ?thesis
    using nd X0 ft pn tn wn XX that by blast
qed

lemma fit_transform_shape:
  assumes "fit_transform copy X = Inr (X', Xs)"
  shows "X \<noteq> []" "length Xs = length X"
  using assms by (auto simp: fit_transform_def Let_def split: if_splits)

lemma fit_transform_rect:
  assumes ft: "fit_transform copy X = Inr (X', Xs)" and rect: "\<forall>row \<in> set X. length row = 9"
  shows "\<forall>row \<in> set Xs. length row = 9"
proof
  fix row assume "row \<in> set Xs"
  then obtain i where i: "i < length Xs" "Xs ! i = row"
    unfolding in_set_conv_nth by blast
  then have "i < length X" using fit_transform_shape(2)[OF ft] by simp
  then show "length row = 9" using fit_transform_nth(1)[OF ft rect] i(2) by blast
qed

lemma normalize_arr_length: "normalize_arr arr = Inr res \<Longrightarrow> length res = length arr"
  by (auto simp: normalize_arr_def split: sum.splits)

lemma weighted_length [simp]: "length X = length Xs \<Longrightarrow> length (weighted_scores Xs X) = length Xs"
  by (simp add: weighted_scores_def pe_penalty_def)

lemma pca_length [simp]: "length (pca_scores pc1 Xs) = length Xs"
  by (simp add: pca_scores_def)

lemma final_score_length:
  "length pn = n \<Longrightarrow> length tn = n \<Longrightarrow> length wn = n \<Longrightarrow> length (final_score pn tn wn) = n"
  by (simp add: final_score_def)

lemma final_score_nth:
  assumes "length pn = n" "length tn = n" "length wn = n" "i < n"
  shows "final_score pn tn wn ! i = fl_div (fl_add (fl_add (pn ! i) (tn ! i)) (wn ! i)) (Fin 3)"
  using assms by (simp add: final_score_def)

text \<open>The scores of a run: one per record.\<close>

lemma analyze_lengths:
  assumes "numeric_data m = Inr nd" "np_array nd = Inr X" "fit_transform True X = Inr (X, Xs)"
    "normalize_arr (map Fin (pca_scores pc1 Xs)) = Inr pn"
    "normalize_arr (topsis_scores Xs) = Inr tn"
    "normalize_arr (map Fin (weighted_scores Xs X)) = Inr wn"
  shows "length X = length m" "length Xs = length m" "length pn = length m"
    "length tn = length m" "length wn = length m"
    "length (final_score pn tn wn) = length m" "m \<noteq> []"
proof -
  show 1: "length X = length m" using feature_matrix(1)[OF assms(1,2)] .
  show 2: "length Xs = length m" using fit_transform_shape(2)[OF assms(3)] 1 by simp
  show 3: "length pn = length m" using normalize_arr_length[OF assms(4)] 2 by simp
  show 4: "length tn = length m" using normalize_arr_length[OF assms(5)] 2 by simp
  show 5: "length wn = length m" using normalize_arr_length[OF assms(6)] 1 2 by simp
  show "length (final_score pn tn wn) = length m" using 3 4 5 by (rule final_score_length)
  show "m \<noteq> []" using fit_transform_shape(1)[OF assms(3)] 1 by auto
qed

subsection \<open>The weighted-penalty scorer\<close>

lemma list9:
  assumes "length xs = 9"
  obtains a b c d e f g h k where "xs = [a, b, c, d, e, f, g, h, k]"
proof -
  have "\<exists>a b c d e f g h k. xs = [a, b, c, d, e, f, g, h, k]"
    using assms by (auto simp: length_Suc_conv eval_nat_numeral)
  then show ?thesis using that by blast
qed

lemma dot_weights:
  assumes "length row = 9"
  shows "dot row weights = (\<Sum>j<9. row ! j * weights ! j)"
proof -
  obtain a b c d e f g h k where row: "row = [a, b, c, d, e, f, g, h, k]"
    using list9[OF assms] .
  show ?thesis
    by (simp add: row dot_def weights_def lessThan_nat_numeral lessThan_Suc)
qed

lemma weighted_scores_nth:
  assumes "length X = length Xs" "i < length Xs"
  shows "weighted_scores Xs X ! i = dot (Xs ! i) weights - tanh (X ! i ! 5 / 50)"
  using assms by (simp add: weighted_scores_def pe_penalty_def column_def)

lemma features_nth:
  assumes "features row = Inr v"
  shows "v ! 0 = row ! 2" "v ! 1 = (if nonzero (row ! 3) then row ! 3 else row ! 2)"
    "v ! 2 = row ! 4" "v ! 3 = row ! 5" "v ! 4 = row ! 6" "v ! 5 = row ! 7"
    "v ! 6 = row ! 8" "v ! 7 = row ! 9" "v ! 8 = row ! 10"
  using features_Inr(2)[OF assms] by simp_all

subsection \<open>Scores of a run\<close>

lemma in_unit_Fin: "in_unit s \<Longrightarrow> \<exists>r. s = Fin r \<and> 0 \<le> r \<and> r \<le> 1"
  by (cases s) auto

lemma normalize_arr_fin_unit:
  assumes "xs \<noteq> []" "normalize_arr (map Fin xs) = Inr res"
  shows "\<forall>s \<in> set res. in_unit s"
proof -
  have res: "res = map (\<lambda>x. Fin ((x - Min (set xs)) / (Max (set xs) - Min (set xs) + 1 / 10 ^ 9))) xs"
    using normalize_arr_fin[OF assms(1)] assms(2) by simp
  show ?thesis
    using normalize_arr_fin_range[OF assms(1)] by (auto simp: res)
qed

lemma all_unit_map_Fin:
  assumes "\<forall>s \<in> set arr. in_unit s"
  shows "arr = map Fin (map fin_val arr)"
proof -
  have "Fin (fin_val s) = s" if "s \<in> set arr" for s
    using assms that in_unit_Fin by fastforce
  then show ?thesis by (simp add: map_idI)
qed

lemma final_score_nan:
  assumes "length pn = n" "length wn = n"
  shows "final_score pn (replicate n NaN) wn = replicate n NaN"
proof (rule nth_equalityI)
  show "length (final_score pn (replicate n NaN) wn) = length (replicate n NaN)"
    using assms by (simp add: final_score_def)
  fix i assume "i < length (final_score pn (replicate n NaN) wn)"
  then have i: "i < n" using assms by (simp add: final_score_def)
  then show "final_score pn (replicate n NaN) wn ! i = replicate n NaN ! i"
    using final_score_nth[of pn n "replicate n NaN" wn i] assms by simp
qed

lemma final_score_unit:
  assumes "length pn = n" "length tn = n" "length wn = n"
    and "\<forall>s \<in> set pn. in_unit s" "\<forall>s \<in> set tn. in_unit s" "\<forall>s \<in> set wn. in_unit s"
  shows "\<forall>s \<in> set (final_score pn tn wn). in_unit s"
proof
  fix s assume "s \<in> set (final_score pn tn wn)"
  then obtain i where i: "i < length (final_score pn tn wn)" "final_score pn tn wn ! i = s"
    unfolding in_set_conv_nth by blast
  then have lt: "i < n" using final_score_length[OF assms(1,2,3)] by simp
  obtain a where a: "pn ! i = Fin a" "0 \<le> a" "a \<le> 1"
    using assms(1,4) lt in_unit_Fin by (metis nth_mem)
  obtain b where b: "tn ! i = Fin b" "0 \<le> b" "b \<le> 1"
    using assms(2,5) lt in_unit_Fin by (metis nth_mem)
  obtain c where c: "wn ! i = Fin c" "0 \<le> c" "c \<le> 1"
    using assms(3,6) lt in_unit_Fin by (metis nth_mem)
  have "s = Fin ((a + b + c) / 3)"
    using final_score_nth[OF assms(1,2,3) lt] i(2) a(1) b(1) c(1) by simp
  then show "in_unit s"
    using a b c by simp
qed

lemma final_scores_unit:
  assumes "numeric_data m = Inr nd" "np_array nd = Inr X" "fit_transform True X = Inr (X, Xs)"
    "normalize_arr (map Fin (pca_scores pc1 Xs)) = Inr pn"
    "normalize_arr (topsis_scores Xs) = Inr tn"
    "normalize_arr (map Fin (weighted_scores Xs X)) = Inr wn"
    and no_nan: "NaN \<notin> set (topsis_scores Xs)"
  shows "\<forall>s \<in> set (final_score pn tn wn). in_unit s"
proof -
  note len = analyze_lengths[OF assms(1-6)]
  have ne: "Xs \<noteq> []" using len(2,7) by auto
  have pu: "\<forall>s \<in> set pn. in_unit s"
    using normalize_arr_fin_unit[OF _ assms(4)] ne by (simp add: pca_scores_def)
  have "length (weighted_scores Xs X) = length m"
    using len(1,2) by simp
  then have "weighted_scores Xs X \<noteq> []"
    using len(7) by auto
  then have wu: "\<forall>s \<in> set wn. in_unit s"
    using normalize_arr_fin_unit[OF _ assms(6)] by simp
  have tu: "\<forall>s \<in> set (topsis_scores Xs). in_unit s"
  proof
    fix s assume s: "s \<in> set (topsis_scores Xs)"
    then obtain i where "i < length Xs" "topsis_scores Xs ! i = s"
      unfolding in_set_conv_nth by auto
    then show "in_unit s"
      using topsis_nan_or_unit[of i Xs] no_nan s by auto
  qed
  have "topsis_scores Xs \<noteq> []" using ne by (metis topsis_length length_0_conv)
  then have "map fin_val (topsis_scores Xs) \<noteq> []" by simp
  moreover have "normalize_arr (map Fin (map fin_val (topsis_scores Xs))) = Inr tn"
    using all_unit_map_Fin[OF tu] assms(5) by simp
  ultimately have "\<forall>s \<in> set tn. in_unit s"
    by (rule normalize_arr_fin_unit)
  then show ?thesis
    using final_score_unit[OF len(3,4,5) pu _ wu] by blast
qed

lemma final_scores_nan_or_unit:
  assumes "numeric_data m = Inr nd" "np_array nd = Inr X" "fit_transform True X = Inr (X, Xs)"
    "normalize_arr (map Fin (pca_scores pc1 Xs)) = Inr pn"
    "normalize_arr (topsis_scores Xs) = Inr tn"
    "normalize_arr (map Fin (weighted_scores Xs X)) = Inr wn"
  shows "final_score pn tn wn = replicate (length m) NaN \<or>
         (\<forall>s \<in> set (final_score pn tn wn). in_unit s)"
proof (cases "NaN \<in> set (topsis_scores Xs)")
  case True
  note len = analyze_lengths[OF assms]
  have "tn = replicate (length m) NaN"
    using normalize_arr_nan[OF True] assms(5) len(2) by simp
  then show ?thesis
    using final_score_nan[OF len(3) len(5)] by simp
next
  case False
  then show ?thesis
    using final_scores_unit[OF assms] by blast
qed

subsection \<open>The ranker\<close>

lemma score_key_snoc [simp]: "score_key (row @ [FloatV s]) = s"
  by (cases row) auto

lemma append_scores_length [simp]:
  "length fs = length m \<Longrightarrow> length (append_scores m fs) = length m"
  by (simp add: append_scores_def)

lemma append_scores_nth:
  "length fs = length m \<Longrightarrow> i < length m \<Longrightarrow> append_scores m fs ! i = m ! i @ [FloatV (fs ! i)]"
  by (simp add: append_scores_def)

lemma append_scores_keys:
  assumes "length fs = length m"
  shows "map score_key (append_scores m fs) = fs"
  using assms by (intro nth_equalityI) (simp_all add: append_scores_nth)

lemma append_scores_key_in:
  assumes "length fs = length m" "r \<in> set (append_scores m fs)"
  shows "score_key r \<in> set fs"
proof -
  have "score_key r \<in> set (map score_key (append_scores m fs))"
    using assms(2) by simp
  then show ?thesis using append_scores_keys[OF assms(1)] by simp
qed

lemma set_sorted_reverse [simp]: "set (sorted_reverse key xs) = set xs"
  using mset_sorted_reverse[of key xs] by (metis set_mset_mset)

lemma length_sorted_reverse [simp]: "length (sorted_reverse key xs) = length xs"
  using mset_sorted_reverse[of key xs] by (metis size_mset)

text \<open>
  The ranking of a run: the records with their scores, which are all NaN, in the
  order of the input, or all in the unit interval, sorted down and stably.
\<close>

lemma analyze_ranking:
  assumes "analyze pc1 m = Inr out"
  obtains fs where "length fs = length m" "m \<noteq> []"
    "out = sorted_reverse score_key (append_scores m fs)"
    "(fs = replicate (length m) NaN \<and> out = append_scores m fs) \<or>
     ((\<forall>s \<in> set fs. in_unit s) \<and>
      sorted_wrt (\<lambda>a b. fin_val (score_key b) \<le> fin_val (score_key a)) out \<and>
      (\<forall>k. filter (\<lambda>r. score_key r = k) out = filter (\<lambda>r. score_key r = k) (append_scores m fs)))"
proof -
  obtain nd X Xs pn tn wn where run:
    "numeric_data m = Inr nd" "np_array nd = Inr X" "fit_transform True X = Inr (X, Xs)"
    "normalize_arr (map Fin (pca_scores pc1 Xs)) = Inr pn"
    "normalize_arr (topsis_scores Xs) = Inr tn"
    "normalize_arr (map Fin (weighted_scores Xs X)) = Inr wn"
    and out: "out = sorted_reverse score_key (append_scores m (final_score pn tn wn))"
    using analyze_Inr[OF assms] by blast
  let ?fs = "final_score pn tn wn"
  let ?ext = "append_scores m ?fs"
  note len = analyze_lengths[OF run]
  have "(?fs = replicate (length m) NaN \<and> out = ?ext) \<or>
     ((\<forall>s \<in> set ?fs. in_unit s) \<and>
      sorted_wrt (\<lambda>a b. fin_val (score_key b) \<le> fin_val (score_key a)) out \<and>
      (\<forall>k. filter (\<lambda>r. score_key r = k) out = filter (\<lambda>r. score_key r = k) ?ext))"
  proof (cases "?fs = replicate (length m) NaN")
    case True
    have "\<forall>r \<in> set ?ext. score_key r = NaN"
    proof
      fix r assume "r \<in> set ?ext"
      then have "score_key r \<in> set ?fs" using append_scores_key_in[OF len(6)] by simp
      then show "score_key r = NaN" using True by simp
    qed
    then have "out = ?ext" using out sorted_reverse_nan by blast
    then show ?thesis using True by simp
  next
    case False
    then have unit: "\<forall>s \<in> set ?fs. in_unit s"
      using final_scores_nan_or_unit[OF run] by blast
    have keys: "\<forall>r \<in> set ?ext. score_key r = Fin (fin_val (score_key r))"
    proof
      fix r assume "r \<in> set ?ext"
      then have "score_key r \<in> set ?fs" using append_scores_key_in[OF len(6)] by simp
      then show "score_key r = Fin (fin_val (score_key r))"
        using unit in_unit_Fin by fastforce
    qed
    have "sorted_wrt (\<lambda>a b. fin_val (score_key b) \<le> fin_val (score_key a)) out"
      using sorted_reverse_fin_sorted[OF keys] out by simp
    moreover have "\<forall>k. filter (\<lambda>r. score_key r = k) out = filter (\<lambda>r. score_key r = k) ?ext"
      using sorted_reverse_fin_stable[OF keys] out by simp
    ultimately show ?thesis using unit by blast
  qed
  then show ?thesis using that[OF len(6) len(7) out] by blast
qed

subsection \<open>The engine returns\<close>

lemma normalize_arr_total: "arr \<noteq> [] \<Longrightarrow> \<exists>res. normalize_arr arr = Inr res"
  by (cases arr) (simp_all add: normalize_arr_def amin_def amax_def)

lemma analyze_total:
  assumes nd: "numeric_data m = Inr nd" and X: "np_array nd = Inr X" and ne: "m \<noteq> []"
  shows "\<exists>out. analyze pc1 m = Inr out"
proof -
  have lX: "length X = length m" using feature_matrix(1)[OF nd X] .
  then have "X \<noteq> []" using ne by auto
  then obtain Xs where ft: "fit_transform True X = Inr (X, Xs)" and lXs: "length Xs = length X"
    using fit_transform_Inr[of X True] by auto
  have n: "Xs \<noteq> []" using lXs lX ne by auto
  then have "map Fin (pca_scores pc1 Xs) \<noteq> []" by (simp add: pca_scores_def)
  then obtain pn where pn: "normalize_arr (map Fin (pca_scores pc1 Xs)) = Inr pn"
    using normalize_arr_total by blast
  have "topsis_scores Xs \<noteq> []" using n by (metis topsis_length length_0_conv)
  then obtain tn where tn: "normalize_arr (topsis_scores Xs) = Inr tn"
    using normalize_arr_total by blast
  have "length (weighted_scores Xs X) = length Xs" using lXs by simp
  then have "map Fin (weighted_scores Xs X) \<noteq> []" using n by auto
  then obtain wn where wn: "normalize_arr (map Fin (weighted_scores Xs X)) = Inr wn"
    using normalize_arr_total by blast
  show ?thesis
    by (simp add: analyze_def nd X ft pn tn wn)
qed

subsection \<open>The examples\<close>

lemma numeric_data_ex_m:
  "numeric_data ex_m =
     Inr [[IntV 100, IntV 100, FloatV (Fin 1), IntV 2, IntV 3, IntV 10, IntV 4, IntV 500, IntV 7],
          [IntV 200, IntV 150, FloatV (Fin 2), IntV 1, IntV 5, IntV 20, IntV 1, IntV 300, IntV 7]]"
  by (simp add: numeric_data_def features_def ex_m_def Let_def)

lemma np_array_ex_m:
  "np_array [[IntV 100, IntV 100, FloatV (Fin 1), IntV 2, IntV 3, IntV 10, IntV 4, IntV 500, IntV 7],
          [IntV 200, IntV 150, FloatV (Fin 2), IntV 1, IntV 5, IntV 20, IntV 1, IntV 300, IntV 7]]
   = Inr ex_X"
  by (simp add: np_array_def ex_X_def)

lemma numeric_data_same_m:
  "numeric_data same_m =
     Inr [[IntV 100, IntV 100, IntV 1, IntV 2, IntV 3, IntV 10, IntV 4, IntV 500, IntV 7],
          [IntV 100, IntV 100, IntV 1, IntV 2, IntV 3, IntV 10, IntV 4, IntV 500, IntV 7]]"
  by (simp add: numeric_data_def features_def same_m_def Let_def)

lemma np_array_same_m:
  "np_array [[IntV 100, IntV 100, IntV 1, IntV 2, IntV 3, IntV 10, IntV 4, IntV 500, IntV 7],
          [IntV 100, IntV 100, IntV 1, IntV 2, IntV 3, IntV 10, IntV 4, IntV 500, IntV 7]]
   = Inr same_X"
  by (simp add: np_array_def same_X_def)

subsection \<open>Runs on records that are not all equal\<close>

lemma scaled_entry_inj:
  assumes "Max (set (column X j)) \<noteq> Min (set (column X j))"
    and "scaled_entry X j x = scaled_entry X j y"
  shows "x = y"
  using assms by (simp add: scaled_entry_def handle_zeros_in_scale_def)

lemma scaled_rows_differ:
  assumes ft: "fit_transform copy X = Inr (X', Xs)"
    and rect: "\<forall>row \<in> set X. length row = 9"
    and i: "i < length X" and k: "k < length X" and ne: "X ! i \<noteq> X ! k"
  shows "Xs ! i \<noteq> Xs ! k"
proof -
  have "length (X ! i) = length (X ! k)" using rect i k by simp
  then obtain j where j: "j < length (X ! i)" "X ! i ! j \<noteq> X ! k ! j"
    using ne nth_equalityI by blast
  then have j9: "j < 9" using rect i by simp
  have "Max (set (column X j)) \<noteq> Min (set (column X j))"
  proof
    assume c: "Max (set (column X j)) = Min (set (column X j))"
    have "X ! i ! j = Min (set (column X j))" using column_bounds[OF i, of j] c by linarith
    moreover have "X ! k ! j = Min (set (column X j))" using column_bounds[OF k, of j] c by linarith
    ultimately show False using j(2) by simp
  qed
  then have "scaled_entry X j (X ! i ! j) \<noteq> scaled_entry X j (X ! k ! j)"
    using scaled_entry_inj j(2) by blast
  then have "Xs ! i ! j \<noteq> Xs ! k ! j"
    using fit_transform_nth(2)[OF ft rect i j9] fit_transform_nth(2)[OF ft rect k j9] by simp
  then show ?thesis by auto
qed

lemma topsis_no_nan:
  assumes rect: "\<forall>row \<in> set Xs. length row = 9"
    and nd: "\<exists>a \<in> set Xs. \<exists>b \<in> set Xs. a \<noteq> b"
  shows "NaN \<notin> set (topsis_scores Xs)"
proof
  assume "NaN \<in> set (topsis_scores Xs)"
  then obtain i where i: "i < length Xs" "topsis_scores Xs ! i = NaN"
    unfolding in_set_conv_nth by auto
  then have "euclid_dist (Xs ! i) (ideal_best Xs) = 0 \<and> euclid_dist (Xs ! i) (ideal_worst Xs) = 0"
    using topsis_nan_iff[OF i(1)] by simp
  then show False
    using degenerate_all_equal[OF rect i(1)] nd by blast
qed

text \<open>
  When two records differ in a feature, every composite score is in the unit interval,
  and the output is sorted down by it and has the length of the input.
\<close>

lemma analyze_distinct_records:
  assumes out: "analyze pc1 m = Inr out"
    and nd: "numeric_data m = Inr nd" and X: "np_array nd = Inr X"
    and distinct: "\<exists>a \<in> set X. \<exists>b \<in> set X. a \<noteq> b"
  shows "length out = length m"
    and "\<forall>r \<in> set out. in_unit (score_key r)"
    and "sorted_wrt (\<lambda>a b. fin_val (score_key b) \<le> fin_val (score_key a)) out"
proof -
  obtain nd' X' Xs pn tn wn where run:
    "numeric_data m = Inr nd'" "np_array nd' = Inr X'" "fit_transform True X' = Inr (X', Xs)"
    "normalize_arr (map Fin (pca_scores pc1 Xs)) = Inr pn"
    "normalize_arr (topsis_scores Xs) = Inr tn"
    "normalize_arr (map Fin (weighted_scores Xs X')) = Inr wn"
    and o: "out = sorted_reverse score_key (append_scores m (final_score pn tn wn))"
    using analyze_Inr[OF out] by blast
  have XX: "X' = X" using run(1,2) nd X by simp
  let ?fs = "final_score pn tn wn"
  note len = analyze_lengths[OF run]
  have rect: "\<forall>row \<in> set X. length row = 9" using feature_matrix(2)[OF nd X] .
  have rectS: "\<forall>row \<in> set Xs. length row = 9"
    using fit_transform_rect[OF run(3)] rect XX by simp
  obtain a b where ab: "a \<in> set X" "b \<in> set X" "a \<noteq> b"
    using distinct by blast
  obtain i where i: "i < length X" "X ! i = a"
    using ab(1) unfolding in_set_conv_nth by blast
  obtain k where k: "k < length X" "X ! k = b"
    using ab(2) unfolding in_set_conv_nth by blast
  have "X ! i \<noteq> X ! k" using ab(3) i(2) k(2) by simp
  then have "Xs ! i \<noteq> Xs ! k"
    using scaled_rows_differ[OF run(3)] rect XX i(1) k(1) by simp
  moreover have "Xs ! i \<in> set Xs" "Xs ! k \<in> set Xs"
    using i(1) k(1) len(1,2) XX by simp_all
  ultimately have "\<exists>a \<in> set Xs. \<exists>b \<in> set Xs. a \<noteq> b" by blast
  then have "NaN \<notin> set (topsis_scores Xs)"
    using topsis_no_nan[OF rectS] by simp
  then have unit: "\<forall>s \<in> set ?fs. in_unit s"
    using final_scores_unit[OF run] by simp
  have keys: "\<forall>r \<in> set (append_scores m ?fs). score_key r = Fin (fin_val (score_key r))"
  proof
    fix r assume "r \<in> set (append_scores m ?fs)"
    then have "score_key r \<in> set ?fs" using append_scores_key_in[OF len(6)] by simp
    then show "score_key r = Fin (fin_val (score_key r))"
      using unit in_unit_Fin by fastforce
  qed
  show "length out = length m" using o len(6) by simp
  show "\<forall>r \<in> set out. in_unit (score_key r)"
  proof
    fix r assume "r \<in> set out"
    then have "r \<in> set (append_scores m ?fs)" using o by simp
    then have "score_key r \<in> set ?fs" using append_scores_key_in[OF len(6)] by simp
    then show "in_unit (score_key r)" using unit by simp
  qed
  show "sorted_wrt (\<lambda>a b. fin_val (score_key b) \<le> fin_val (score_key a)) out"
    using sorted_reverse_fin_sorted[OF keys] o by simp
qed

section \<open>The claims\<close>

text \<open>
  Claim C1 fails for two records with the same features (a non-empty input): the
  engine returns them in the order of the input, each with the composite score NaN,
  which is not in \<open>[0, 1]\<close>. The NaN is the quotient \<open>0 / 0\<close> of the ideal-point
  scorer. (For the scores of every other run see \<open>analyze_ranking\<close> and
  \<open>analyze_distinct_records\<close>.)
\<close>

theorem analyze_equal_records_nan:
  "analyze pc1 same_m = Inr (append_scores same_m [NaN, NaN]) \<and>
   append_scores same_m [NaN, NaN] = [same_m ! 0 @ [FloatV NaN], same_m ! 1 @ [FloatV NaN]] \<and>
   map score_key (append_scores same_m [NaN, NaN]) = [NaN, NaN] \<and> \<not> in_unit NaN"
proof -
  have ne: "same_m \<noteq> []" and l: "length same_m = 2" by (simp_all add: same_m_def)
  obtain out where out: "analyze pc1 same_m = Inr out"
    using analyze_total[OF numeric_data_same_m np_array_same_m ne] by blast
  obtain nd X Xs pn tn wn where run:
    "numeric_data same_m = Inr nd" "np_array nd = Inr X" "fit_transform True X = Inr (X, Xs)"
    "normalize_arr (map Fin (pca_scores pc1 Xs)) = Inr pn"
    "normalize_arr (topsis_scores Xs) = Inr tn"
    "normalize_arr (map Fin (weighted_scores Xs X)) = Inr wn"
    and o: "out = sorted_reverse score_key (append_scores same_m (final_score pn tn wn))"
    using analyze_Inr[OF out] by blast
  note len = analyze_lengths[OF run]
  have X: "X = same_X" using run(1,2) numeric_data_same_m np_array_same_m by simp
  then have Xs: "Xs = deg_X" using run(3) fit_transform_same_X by simp
  have "normalize_arr [NaN, NaN] = Inr (replicate (length [NaN, NaN]) NaN)"
    by (rule normalize_arr_nan) simp
  then have "normalize_arr (topsis_scores Xs) = Inr [NaN, NaN]"
    by (simp add: Xs topsis_deg_X numeral_2_eq_2)
  then have tn: "tn = [NaN, NaN]"
    using run(5) by simp
  have "final_score pn (replicate 2 NaN) wn = replicate 2 NaN"
    using len(3,5) l by (intro final_score_nan) simp_all
  then have fs: "final_score pn tn wn = [NaN, NaN]"
    by (simp add: tn numeral_2_eq_2)
  have keys: "map score_key (append_scores same_m [NaN, NaN]) = [NaN, NaN]"
    using append_scores_keys[of "[NaN, NaN]" same_m] l by simp
  have "\<forall>r \<in> set (append_scores same_m [NaN, NaN]). score_key r = NaN"
  proof
    fix r assume "r \<in> set (append_scores same_m [NaN, NaN])"
    then have "score_key r \<in> set [NaN, NaN]"
      using append_scores_key_in[of "[NaN, NaN]" same_m r] l by simp
    then show "score_key r = NaN" by simp
  qed
  then have "sorted_reverse score_key (append_scores same_m [NaN, NaN]) =
             append_scores same_m [NaN, NaN]"
    by (rule sorted_reverse_nan)
  then have "out = append_scores same_m [NaN, NaN]"
    using o fs by simp
  moreover have "append_scores same_m [NaN, NaN] =
      [same_m ! 0 @ [FloatV NaN], same_m ! 1 @ [FloatV NaN]]"
    by (simp add: append_scores_def same_m_def)
  ultimately show ?thesis using out keys by simp
qed

text \<open>
  Claim C2. The specification asks for a guard that gives the score 0.5 to a record
  whose two distances are zero. The code has none: for two records with the same
  features the scaled matrix is zero, both distances of both records are zero, and the
  division \<open>0 / 0\<close> makes each score NaN, not 0.5. Nothing is raised.
\<close>

theorem topsis_zero_distances_nan:
  "fit_transform True same_X = Inr (same_X, deg_X) \<and>
   dist_best deg_X = [0, 0] \<and> dist_worst deg_X = [0, 0] \<and>
   topsis_scores deg_X = [NaN, NaN] \<and> topsis_scores deg_X ! 0 \<noteq> Fin 0.5"
  by (simp add: fit_transform_same_X dist_deg_X topsis_deg_X)

text \<open>
  Claim C3. The weights of the cost columns 0, 1 and 5 are negative and those of the
  benefit columns 3, 4, 6, 7 and 8 are positive, but column 2 (the change in percent),
  which \<open>benefit_idx\<close> lists as a benefit column, has the weight \<open>-0.2\<close>: of two
  records that differ in this column only, the one with the higher change gets the
  lower weighted score.
\<close>

theorem weights_change_pct_negative:
  "set cost_idx = {0, 1, 5} \<and> set benefit_idx = {2, 3, 4, 6, 7, 8} \<and>
   weights ! 0 < 0 \<and> weights ! 1 < 0 \<and> weights ! 5 < 0 \<and>
   0 < weights ! 3 \<and> 0 < weights ! 4 \<and> 0 < weights ! 6 \<and> 0 < weights ! 7 \<and> 0 < weights ! 8 \<and>
   2 \<in> set benefit_idx \<and> weights ! 2 = - 0.2 \<and>
   weighted_scores [[0, 0, 1, 0, 0, 0, 0, 0, 0], [0, 0, 0, 0, 0, 0, 0, 0, 0]]
                   [[5, 5, 2, 0, 0, 0, 0, 0, 0], [5, 5, 1, 0, 0, 0, 0, 0, 0]] = [- 0.2, 0]"
  by (simp add: cost_idx_def benefit_idx_def weights_def weighted_scores_def dot_def
      pe_penalty_def column_def)

text \<open>
  Claim C4. For a page without table, a table without rows or a table of the header
  row only, \<open>scrape\<close> returns the empty list, and \<open>analyze\<close> then raises
  \<^verbatim>\<open>ValueError\<close> (the scaler refuses the empty array): the pipeline does not return an
  empty ranking.
\<close>

theorem pipeline_header_only_raises:
  "scrape None = [] \<and> scrape (Some []) = [] \<and> scrape (Some [hdr]) = [] \<and>
   pipeline pc1 None = Inl ValueError \<and> pipeline pc1 (Some []) = Inl ValueError \<and>
   pipeline pc1 (Some [hdr]) = Inl ValueError"
proof -
  have s: "scrape None = []" "scrape (Some []) = []" "scrape (Some [hdr]) = []"
    by (simp_all add: scrape_def Let_def)
  show ?thesis
    by (simp add: pipeline_def s analyze_empty)
qed





text \<open>
  Claim C7, as stated, fails when all records are equal: the record is the ideal-best
  and the ideal-worst point at once, and its score is NaN, which is neither 1 nor 0
  nor in the unit interval.
\<close>

theorem topsis_degenerate_counterexample:
  "deg_X ! 0 = ideal_best deg_X \<and> deg_X ! 0 = ideal_worst deg_X \<and>
   topsis_scores deg_X ! 0 \<noteq> Fin 1 \<and> topsis_scores deg_X ! 0 \<noteq> Fin 0 \<and>
   \<not> in_unit (topsis_scores deg_X ! 0)"
  by (simp add: ideal_deg_X topsis_deg_X) (simp add: deg_X_def)

text \<open>
  Claim C7, amended. In a scaled matrix of nine columns whose records are not all
  equal, every record's score \<open>d_worst / (d_best + d_worst)\<close> lies in \<open>[0, 1]\<close>; a
  record equal to the ideal-best point (per column the maximum, and the minimum for
  the cost columns 0, 1 and 5) scores 1, and a record equal to the ideal-worst point
  scores 0.
\<close>

theorem topsis_scores_unit:
  assumes rect: "\<forall>row \<in> set Xs. length row = 9"
    and i: "i < length Xs"
    and nd: "\<exists>a \<in> set Xs. \<exists>b \<in> set Xs. a \<noteq> b"
  shows "topsis_scores Xs ! i =
      Fin (euclid_dist (Xs ! i) (ideal_worst Xs) /
           (euclid_dist (Xs ! i) (ideal_best Xs) + euclid_dist (Xs ! i) (ideal_worst Xs))) \<and>
    in_unit (topsis_scores Xs ! i) \<and>
    (Xs ! i = ideal_best Xs \<longrightarrow> topsis_scores Xs ! i = Fin 1) \<and>
    (Xs ! i = ideal_worst Xs \<longrightarrow> topsis_scores Xs ! i = Fin 0) \<and>
    (\<forall>j < 9. ideal_best Xs ! j =
       (if j \<in> set cost_idx then Min (set (column Xs j)) else Max (set (column Xs j)))) \<and>
    (\<forall>j < 9. ideal_worst Xs ! j =
       (if j \<in> set cost_idx then Max (set (column Xs j)) else Min (set (column Xs j))))"
proof -
  let ?db = "euclid_dist (Xs ! i) (ideal_best Xs)" and ?dw = "euclid_dist (Xs ! i) (ideal_worst Xs)"
  have ne: "Xs \<noteq> []" using i by auto
  have nc: "ncols Xs = 9" using ne rect by (rule ncols_9)
  have not_both: "\<not> (?db = 0 \<and> ?dw = 0)"
    using degenerate_all_equal[OF rect i] nd by blast
  then have "topsis_scores Xs ! i \<noteq> NaN"
    using topsis_nan_iff[OF i] by simp
  then have unit: "in_unit (topsis_scores Xs ! i)"
    using topsis_nan_or_unit[OF i] by simp
  have best: "topsis_scores Xs ! i = Fin 1" if eq: "Xs ! i = ideal_best Xs"
  proof -
    have "?db = 0" using eq euclid_dist_self by simp
    moreover from this have "?dw \<noteq> 0" using not_both by simp
    ultimately show ?thesis by (simp add: topsis_nth[OF i])
  qed
  have worst: "topsis_scores Xs ! i = Fin 0" if eq: "Xs ! i = ideal_worst Xs"
  proof -
    have "?dw = 0" using eq euclid_dist_self by simp
    moreover from this have "?db \<noteq> 0" using not_both by simp
    ultimately show ?thesis by (simp add: topsis_nth[OF i])
  qed
  have "?db + ?dw \<noteq> 0"
    using not_both euclid_dist_nonneg[of "Xs ! i" "ideal_best Xs"]
      euclid_dist_nonneg[of "Xs ! i" "ideal_worst Xs"] by linarith
  then have quot: "topsis_scores Xs ! i = Fin (?dw / (?db + ?dw))"
    by (simp add: topsis_nth[OF i])
  show ?thesis
    using quot unit best worst ideal_best_nth[OF nc] ideal_worst_nth[OF nc] by blast
qed

theorem topsis_scores_unit_witness:
  "topsis_scores ex_Xs ! 0 = Fin 1 \<and> topsis_scores ex_Xs ! 1 = Fin 0 \<and>
   in_unit (topsis_scores ex_Xs ! 0) \<and> in_unit (topsis_scores ex_Xs ! 1)"
proof -
  have rect: "\<forall>row \<in> set ex_Xs. length row = 9" by (simp add: ex_Xs_def)
  have "ex_Xs ! 0 \<in> set ex_Xs" "ex_Xs ! 1 \<in> set ex_Xs" "ex_Xs ! 0 \<noteq> ex_Xs ! 1"
    by (simp_all add: ex_Xs_def)
  then have nd: "\<exists>a \<in> set ex_Xs. \<exists>b \<in> set ex_Xs. a \<noteq> b" by blast
  have l: "0 < length ex_Xs" "1 < length ex_Xs" by (simp_all add: ex_Xs_def)
  have b: "ex_Xs ! 0 = ideal_best ex_Xs" and w: "ex_Xs ! 1 = ideal_worst ex_Xs"
    using ex_Xs_ideal by simp_all
  have "topsis_scores ex_Xs ! 0 = Fin 1 \<and> in_unit (topsis_scores ex_Xs ! 0)"
    using topsis_scores_unit[OF rect l(1) nd] b by blast
  moreover have "topsis_scores ex_Xs ! 1 = Fin 0 \<and> in_unit (topsis_scores ex_Xs ! 1)"
    using topsis_scores_unit[OF rect l(2) nd] w by blast
  ultimately show ?thesis by blast
qed

text \<open>
  Claim C8. In a run of the engine, the weighted score of record \<open>i\<close> is the weighted
  sum of its scaled feature vector minus \<open>tanh (pe / 50)\<close>, where \<open>pe\<close> is the number
  in cell 7 of the record, its P/E ratio as parsed: column 5 of the matrix \<open>X\<close> that
  was not scaled.
\<close>

theorem weighted_penalty_raw_pe:
  assumes nd: "numeric_data m = Inr nd" and X0: "np_array nd = Inr X0"
    and ft: "fit_transform True X0 = Inr (X, Xs)" and i: "i < length m"
  shows "\<exists>pe. to_float (m ! i ! 7) = Inr pe \<and> X ! i ! 5 = pe \<and>
           weighted_scores Xs X ! i = (\<Sum>j<9. Xs ! i ! j * weights ! j) - tanh (pe / 50)"
proof -
  have XX: "X = X0"
    using ft by (auto simp: fit_transform_def Let_def split: if_splits)
  have lX: "length X0 = length m" and rect: "\<forall>row \<in> set X0. length row = 9"
    using feature_matrix[OF nd X0] by simp_all
  have lXs: "length Xs = length X0" using fit_transform_shape(2)[OF ft] .
  have lnd: "length nd = length m" using numeric_data_rows(1)[OF nd] .
  have f: "features (m ! i) = Inr (nd ! i)" using numeric_data_rows(2)[OF nd i] .
  have "to_float (nd ! i ! 5) = Inr (X0 ! i ! 5)"
    using np_array_rows(3)[OF X0, of i 5] i lnd features_length[OF f] by simp
  then have pe: "to_float (m ! i ! 7) = Inr (X ! i ! 5)"
    using features_nth(6)[OF f] XX by simp
  have "length (Xs ! i) = 9"
    using fit_transform_nth(1)[OF ft rect] i lX by simp
  then have "weighted_scores Xs X ! i = (\<Sum>j<9. Xs ! i ! j * weights ! j) - tanh (X ! i ! 5 / 50)"
    using weighted_scores_nth[of X Xs i] dot_weights[of "Xs ! i"] i lX lXs XX by simp
  then show ?thesis using pe by simp
qed

theorem weighted_penalty_raw_pe_witness:
  "\<exists>nd Xs. numeric_data ex_m = Inr nd \<and> np_array nd = Inr ex_X \<and>
     fit_transform True ex_X = Inr (ex_X, Xs) \<and> ex_m ! 1 ! 7 = IntV 20 \<and>
     weighted_scores Xs ex_X ! 1 = (\<Sum>j<9. Xs ! 1 ! j * weights ! j) - tanh (20 / 50)"
proof -
  obtain Xs where ft: "fit_transform True ex_X = Inr (ex_X, Xs)"
    using fit_transform_Inr[OF ex_X_shape(1), of True] by auto
  have i: "1 < length ex_m" by (simp add: ex_m_def)
  have c: "ex_m ! 1 ! 7 = IntV 20" by (simp add: ex_m_def)
  obtain pe where "to_float (ex_m ! 1 ! 7) = Inr pe"
    "weighted_scores Xs ex_X ! 1 = (\<Sum>j<9. Xs ! 1 ! j * weights ! j) - tanh (pe / 50)"
    using weighted_penalty_raw_pe[OF numeric_data_ex_m np_array_ex_m ft i] by blast
  then have "weighted_scores Xs ex_X ! 1 = (\<Sum>j<9. Xs ! 1 ! j * weights ! j) - tanh (20 / 50)"
    using c by simp
  then show ?thesis
    using numeric_data_ex_m np_array_ex_m ft c by blast
qed

text \<open>
  Claim C9. In a run of the engine that returns \<open>out\<close>, column 1 of the feature
  matrix \<open>X\<close>, which the scaler and through it every scorer reads, holds for each
  record its closing cell (position 3), or its opening cell (position 2) when the
  closing cell is zero (the integer 0 or the float 0). Every row of \<open>out\<close> is a record of the input with one score
  appended, so its cell 3 is the closing cell as it was given.
\<close>

theorem closing_fallback:
  assumes "analyze pc1 m = Inr out"
  shows "\<exists>nd X Xs. numeric_data m = Inr nd \<and> np_array nd = Inr X \<and>
           fit_transform True X = Inr (X, Xs) \<and>
           (\<forall>i < length m.
              to_float (if nonzero (m ! i ! 3) then m ! i ! 3 else m ! i ! 2) = Inr (X ! i ! 1) \<and>
              (\<not> nonzero (m ! i ! 3) \<longrightarrow> to_float (m ! i ! 2) = Inr (X ! i ! 1))) \<and>
           (\<forall>r \<in> set out. \<exists>row \<in> set m. \<exists>s.
              r = row @ [FloatV s] \<and> 11 \<le> length row \<and> r ! 3 = row ! 3) \<and>
           (\<forall>c. \<not> nonzero c \<longleftrightarrow> c = IntV 0 \<or> c = FloatV (Fin 0))"
proof -
  have C: "\<forall>c. \<not> nonzero c \<longleftrightarrow> c = IntV 0 \<or> c = FloatV (Fin 0)"
  proof
    fix c show "\<not> nonzero c \<longleftrightarrow> c = IntV 0 \<or> c = FloatV (Fin 0)"
    proof (cases c)
      case (FloatV f)
      then show ?thesis by (cases f) auto
    qed auto
  qed
  obtain nd X Xs pn tn wn where run:
    "numeric_data m = Inr nd" "np_array nd = Inr X" "fit_transform True X = Inr (X, Xs)"
    "normalize_arr (map Fin (pca_scores pc1 Xs)) = Inr pn"
    "normalize_arr (topsis_scores Xs) = Inr tn"
    "normalize_arr (map Fin (weighted_scores Xs X)) = Inr wn"
    and out: "out = sorted_reverse score_key (append_scores m (final_score pn tn wn))"
    using analyze_Inr[OF assms] by blast
  let ?fs = "final_score pn tn wn"
  note len = analyze_lengths[OF run]
  have lnd: "length nd = length m" using numeric_data_rows(1)[OF run(1)] .
  have feat: "to_float (if nonzero (m ! i ! 3) then m ! i ! 3 else m ! i ! 2) = Inr (X ! i ! 1)"
    if i: "i < length m" for i
  proof -
    have f: "features (m ! i) = Inr (nd ! i)" using numeric_data_rows(2)[OF run(1) i] .
    have "to_float (nd ! i ! 1) = Inr (X ! i ! 1)"
      using np_array_rows(3)[OF run(2), of i 1] i lnd features_length[OF f] by simp
    then show ?thesis using features_nth(2)[OF f] by simp
  qed
  have rows: "\<exists>row \<in> set m. \<exists>s. r = row @ [FloatV s] \<and> 11 \<le> length row \<and> r ! 3 = row ! 3"
    if r: "r \<in> set out" for r
  proof -
    have "r \<in> set (append_scores m ?fs)" using r out by simp
    then obtain i where i: "i < length m" "r = m ! i @ [FloatV (?fs ! i)]"
      using len(6) unfolding in_set_conv_nth by (auto simp: append_scores_nth)
    have "features (m ! i) = Inr (nd ! i)" using numeric_data_rows(2)[OF run(1) i(1)] .
    then have l: "11 \<le> length (m ! i)" by (rule features_Inr(1))
    then have "r ! 3 = m ! i ! 3" using i(2) by (simp add: nth_append)
    then show ?thesis using i l by auto
  qed
  have A: "\<forall>i < length m.
      to_float (if nonzero (m ! i ! 3) then m ! i ! 3 else m ! i ! 2) = Inr (X ! i ! 1) \<and>
      (\<not> nonzero (m ! i ! 3) \<longrightarrow> to_float (m ! i ! 2) = Inr (X ! i ! 1))"
  proof (intro allI impI conjI)
    fix i assume i: "i < length m"
    show "to_float (if nonzero (m ! i ! 3) then m ! i ! 3 else m ! i ! 2) = Inr (X ! i ! 1)"
      using feat[OF i] .
    assume "\<not> nonzero (m ! i ! 3)"
    then show "to_float (m ! i ! 2) = Inr (X ! i ! 1)"
      using feat[OF i] by simp
  qed
  have B: "\<forall>r \<in> set out. \<exists>row \<in> set m. \<exists>s.
      r = row @ [FloatV s] \<and> 11 \<le> length row \<and> r ! 3 = row ! 3"
    using rows by blast
  show ?thesis
    by (intro exI conjI) (rule run(1), rule run(2), rule run(3), rule A, rule B, rule C)
qed

theorem closing_fallback_witness:
  "\<exists>out X. analyze (\<lambda>X r. 0) ex_m = Inr out \<and> ex_m ! 0 ! 3 = IntV 0 \<and>
     np_array [[IntV 100, IntV 100, FloatV (Fin 1), IntV 2, IntV 3, IntV 10, IntV 4, IntV 500, IntV 7],
          [IntV 200, IntV 150, FloatV (Fin 2), IntV 1, IntV 5, IntV 20, IntV 1, IntV 300, IntV 7]]
       = Inr X \<and>
     to_float (ex_m ! 0 ! 2) = Inr (X ! 0 ! 1) \<and> X ! 0 ! 1 = 100 \<and>
     list_all (\<lambda>r. r ! 3 = IntV 0 \<or> r ! 3 = IntV 150) out"
proof -
  obtain out where out: "analyze (\<lambda>X r. 0) ex_m = Inr out"
    using analyze_total[OF numeric_data_ex_m np_array_ex_m] by (auto simp: ex_m_def)
  obtain nd X where nd: "numeric_data ex_m = Inr nd" and X: "np_array nd = Inr X"
    and feat: "\<forall>i < length ex_m.
              to_float (if nonzero (ex_m ! i ! 3) then ex_m ! i ! 3 else ex_m ! i ! 2) = Inr (X ! i ! 1) \<and>
              (\<not> nonzero (ex_m ! i ! 3) \<longrightarrow> to_float (ex_m ! i ! 2) = Inr (X ! i ! 1))"
    and rows: "\<forall>r \<in> set out. \<exists>row \<in> set ex_m. \<exists>s.
              r = row @ [FloatV s] \<and> 11 \<le> length row \<and> r ! 3 = row ! 3"
    using closing_fallback[OF out] by blast
  have XX: "X = ex_X" using nd X numeric_data_ex_m np_array_ex_m by simp
  have z: "ex_m ! 0 ! 3 = IntV 0" by (simp add: ex_m_def)
  have "0 < length ex_m" by (simp add: ex_m_def)
  then have f0: "to_float (ex_m ! 0 ! 2) = Inr (X ! 0 ! 1)"
    using feat z by auto
  have v: "X ! 0 ! 1 = 100" by (simp add: XX ex_X_def)
  have "\<forall>row \<in> set ex_m. row ! 3 = IntV 0 \<or> row ! 3 = IntV 150"
    by (simp add: ex_m_def)
  then have "\<forall>r \<in> set out. r ! 3 = IntV 0 \<or> r ! 3 = IntV 150"
    using rows by metis
  then have "list_all (\<lambda>r. r ! 3 = IntV 0 \<or> r ! 3 = IntV 150) out"
    by (simp add: list_all_iff)
  then show ?thesis
    using out z f0 v nd X numeric_data_ex_m by auto
qed

text \<open>
  Claim C10. The output of a run is a permutation of the input records, each extended
  by one score at its end, and the sort is stable: for each score \<open>k\<close>, the rows of the
  output with that score are the rows of the input with that score, in the order of
  the input.
\<close>

theorem ranking_stable_permutation:
  assumes "analyze pc1 m = Inr out"
  shows "\<exists>fs. length fs = length m \<and>
           (\<forall>i < length m. append_scores m fs ! i = m ! i @ [FloatV (fs ! i)]) \<and>
           mset out = mset (append_scores m fs) \<and>
           (\<forall>k. filter (\<lambda>r. score_key r = k) out =
                filter (\<lambda>r. score_key r = k) (append_scores m fs))"
proof -
  obtain fs where fs: "length fs = length m"
    "out = sorted_reverse score_key (append_scores m fs)"
    "(fs = replicate (length m) NaN \<and> out = append_scores m fs) \<or>
     ((\<forall>s \<in> set fs. in_unit s) \<and>
      sorted_wrt (\<lambda>a b. fin_val (score_key b) \<le> fin_val (score_key a)) out \<and>
      (\<forall>k. filter (\<lambda>r. score_key r = k) out = filter (\<lambda>r. score_key r = k) (append_scores m fs)))"
    using analyze_ranking[OF assms] by blast
  have "mset out = mset (append_scores m fs)"
    using fs(2) by (simp add: mset_sorted_reverse)
  moreover have "\<forall>k. filter (\<lambda>r. score_key r = k) out =
                filter (\<lambda>r. score_key r = k) (append_scores m fs)"
    using fs(3) by auto
  moreover have "\<forall>i < length m. append_scores m fs ! i = m ! i @ [FloatV (fs ! i)]"
    using fs(1) by (simp add: append_scores_nth)
  ultimately show ?thesis using fs(1) by blast
qed

theorem ranking_stable_permutation_witness:
  "\<exists>out fs. analyze (\<lambda>X r. 0) ex_m = Inr out \<and> length fs = 2 \<and>
     append_scores ex_m fs ! 0 = ex_m ! 0 @ [FloatV (fs ! 0)] \<and>
     append_scores ex_m fs ! 1 = ex_m ! 1 @ [FloatV (fs ! 1)] \<and>
     mset out = mset (append_scores ex_m fs) \<and>
     filter (\<lambda>r. score_key r = fs ! 0) out = filter (\<lambda>r. score_key r = fs ! 0) (append_scores ex_m fs)"
proof -
  obtain out where out: "analyze (\<lambda>X r. 0) ex_m = Inr out"
    using analyze_total[OF numeric_data_ex_m np_array_ex_m] by (auto simp: ex_m_def)
  have l: "length ex_m = 2" by (simp add: ex_m_def)
  obtain fs where fs: "length fs = length ex_m"
    "\<forall>i < length ex_m. append_scores ex_m fs ! i = ex_m ! i @ [FloatV (fs ! i)]"
    "mset out = mset (append_scores ex_m fs)"
    "\<forall>k. filter (\<lambda>r. score_key r = k) out = filter (\<lambda>r. score_key r = k) (append_scores ex_m fs)"
    using ranking_stable_permutation[OF out] by blast
  have "append_scores ex_m fs ! 0 = ex_m ! 0 @ [FloatV (fs ! 0)]"
    "append_scores ex_m fs ! 1 = ex_m ! 1 @ [FloatV (fs ! 1)]"
    using fs(2) l by simp_all
  then show ?thesis
    using out fs(1,3,4) l by auto
qed

end
